theory Spec2Isabelle
  imports Complex_Main
begin

section \<open>Tags view (layouts/components/TagsView/index.vue)\<close>

subsection \<open>Data\<close>

type_synonym LocationQuery = "(string \<times> string) list"

text \<open>The part of a route's \<open>meta\<close> record that the tags view reads.\<close>

record RouteMeta =
  title :: "string option"
  affix :: "bool option"

text \<open>
  Modelled from the spec: the type \<open>TagView\<close> is declared in the store module
  \<open>@/pinia/stores/tags-view\<close>, which is not part of the sources. The spec gives a
  VisitedView the attributes path, fullPath, name, title, query, affixed; the component
  reads \<open>tag.path\<close>, \<open>tag.fullPath\<close>, \<open>tag.name\<close>, \<open>tag.query\<close>,
  \<open>tag.meta?.affix\<close> and \<open>tag.meta?.title\<close>. Every field is optional: the component
  initialises \<open>selectedTag\<close> with the empty object and tests
  \<open>fullPath !== undefined\<close>. \<open>None\<close> stands for \<open>undefined\<close>.
\<close>

record TagView =
  fullPath :: "string option"
  path :: "string option"
  name :: "string option"
  query :: "LocationQuery option"
  meta :: "RouteMeta option"

text \<open>
  The route handed to the route listener (vue-router's normalized location): here path
  and fullPath are always present.
\<close>

record RouteLocationNormalized =
  rl_fullPath :: string
  rl_path :: string
  rl_name :: "string option"
  rl_query :: LocationQuery
  rl_meta :: RouteMeta

text \<open>
  A record of the static route configuration. A missing \<open>children\<close> array and an empty
  one contribute the same (no) tags, so both are the empty list.
\<close>

datatype RouteRecordRaw =
  RouteRecordRaw (rr_path: string) (rr_name: "string option")
    (rr_meta: "RouteMeta option") (rr_children: "RouteRecordRaw list")

text \<open>The argument of \<open>router.push\<close> and \<open>router.replace\<close>: a path string, or an
  object \<open>{ path, query }\<close>.\<close>

datatype RouteLocationRaw =
  PathString string
| PathQuery string "LocationQuery option"

text \<open>
  The calls the component makes on its collaborators (router and store), in the order it
  makes them. The router is fire-and-forget for the component: a call is recorded, the
  current route changes only when the route listener reports it.
\<close>

datatype Call =
  RouterPush RouteLocationRaw
| RouterReplace RouteLocationRaw
| AddVisitedView TagView
| AddCachedView TagView
| DelVisitedView TagView
| DelCachedView TagView
| DelOthersVisitedViews TagView
| DelOthersCachedViews TagView
| DelAllVisitedViews
| DelAllCachedViews

record Shell =
  visitedViews :: "TagView list"
  cachedViews :: "string list"
  affixTags :: "TagView list"
  route_path :: string
  selectedTag :: TagView
  calls :: "Call list"

definition record_call :: "Call \<Rightarrow> Shell \<Rightarrow> Shell" where
  "record_call c s = s\<lparr>calls := calls s @ [c]\<rparr>"

fun isRouterCall :: "Call \<Rightarrow> bool" where
  "isRouterCall (RouterPush _) = True"
| "isRouterCall (RouterReplace _) = True"
| "isRouterCall _ = False"

fun isPush :: "Call \<Rightarrow> bool" where
  "isPush (RouterPush _) = True"
| "isPush _ = False"

text \<open>The navigations issued so far, oldest first.\<close>

definition navigations :: "Shell \<Rightarrow> Call list" where
  "navigations s = filter isRouterCall (calls s)"

definition router_push :: "RouteLocationRaw \<Rightarrow> Shell \<Rightarrow> Shell" where
  "router_push to s = record_call (RouterPush to) s"

definition router_replace :: "RouteLocationRaw \<Rightarrow> Shell \<Rightarrow> Shell" where
  "router_replace to s = record_call (RouterReplace to) s"

text \<open>A string interpolated into a template literal: \<open>undefined\<close> prints as the
  word.\<close>

definition interpolate :: "string option \<Rightarrow> string" where
  "interpolate v = (case v of None \<Rightarrow> ''undefined'' | Some x \<Rightarrow> x)"

subsection \<open>The store\<close>

definition metaAffix :: "RouteMeta option \<Rightarrow> bool" where
  "metaAffix m = (case m of None \<Rightarrow> False | Some r \<Rightarrow> affix r = Some True)"

definition isAffix :: "TagView \<Rightarrow> bool" where
  "isAffix tag = metaAffix (meta tag)"

text \<open>The names of the affixed views of the registry.\<close>

definition affixedNames :: "TagView list \<Rightarrow> string list" where
  "affixedNames vs = concat (map (\<lambda>v. case name v of None \<Rightarrow> [] | Some n \<Rightarrow> [n])
     (filter isAffix vs))"

text \<open>
  Modelled from the spec: \<open>addVisitedView\<close> of the missing store module
  \<open>@/pinia/stores/tags-view\<close>. "Insert-or-noop into VisitedViews (by path)"; "at most
  one VisitedView per distinct path exists in the registry at any time; inserting a
  duplicate path is a no-op"; "ordering is insertion order".
\<close>

definition addVisitedView :: "TagView \<Rightarrow> Shell \<Rightarrow> Shell" where
  "addVisitedView view s =
     record_call (AddVisitedView view)
       (if list_ex (\<lambda>v. path v = path view) (visitedViews s) then s
        else s\<lparr>visitedViews := visitedViews s @ [view]\<rparr>)"

text \<open>
  Modelled from the spec: \<open>addCachedView\<close> of the missing store module. "Insert-or-noop
  into CachedViews (by name)"; "cache membership is a set (no duplicates); a view is
  cached only if its route declares a name".
\<close>

definition addCachedView :: "TagView \<Rightarrow> Shell \<Rightarrow> Shell" where
  "addCachedView view s =
     record_call (AddCachedView view)
       (case name view of
          None \<Rightarrow> s
        | Some n \<Rightarrow> if n \<in> set (cachedViews s) then s
                    else s\<lparr>cachedViews := cachedViews s @ [n]\<rparr>)"

text \<open>
  Modelled from the spec: \<open>delVisitedView\<close> of the missing store module. closeOne
  "removes view from both collections"; the key of a VisitedView is its path; "closing a
  view not present in the registry: no-op, not an error".
\<close>

definition delVisitedView :: "TagView \<Rightarrow> Shell \<Rightarrow> Shell" where
  "delVisitedView view s =
     record_call (DelVisitedView view)
       (s\<lparr>visitedViews := filter (\<lambda>v. path v \<noteq> path view) (visitedViews s)\<rparr>)"

text \<open>
  Modelled from the spec: \<open>delCachedView\<close> of the missing store module. closeOne
  "removes view from both collections", refresh "removes view from CachedViews only"; the
  key of a CachedView is the route name.
\<close>

definition delCachedView :: "TagView \<Rightarrow> Shell \<Rightarrow> Shell" where
  "delCachedView view s =
     record_call (DelCachedView view)
       (case name view of
          None \<Rightarrow> s
        | Some n \<Rightarrow> s\<lparr>cachedViews := filter (\<lambda>c. c \<noteq> n) (cachedViews s)\<rparr>)"

text \<open>
  Modelled from the spec: \<open>delOthersVisitedViews\<close> of the missing store module.
  closeOthers "removes every VisitedView/CachedView except keep and any affixed views".
\<close>

definition delOthersVisitedViews :: "TagView \<Rightarrow> Shell \<Rightarrow> Shell" where
  "delOthersVisitedViews view s =
     record_call (DelOthersVisitedViews view)
       (s\<lparr>visitedViews := filter (\<lambda>v. isAffix v \<or> path v = path view) (visitedViews s)\<rparr>)"

text \<open>
  Modelled from the spec: \<open>delOthersCachedViews\<close> of the missing store module.
  closeOthers "removes every VisitedView/CachedView except keep and any affixed views":
  a cached name survives when it is the name of \<open>keep\<close> or of an affixed view of the
  registry.
\<close>

definition delOthersCachedViews :: "TagView \<Rightarrow> Shell \<Rightarrow> Shell" where
  "delOthersCachedViews view s =
     record_call (DelOthersCachedViews view)
       (s\<lparr>cachedViews := filter (\<lambda>c. Some c = name view \<or> c \<in> set (affixedNames (visitedViews s)))
                            (cachedViews s)\<rparr>)"

text \<open>
  Modelled from the spec: \<open>delAllVisitedViews\<close> of the missing store module. closeAll
  "removes every non-affixed VisitedView/CachedView".
\<close>

definition delAllVisitedViews :: "Shell \<Rightarrow> Shell" where
  "delAllVisitedViews s =
     record_call DelAllVisitedViews (s\<lparr>visitedViews := filter isAffix (visitedViews s)\<rparr>)"

text \<open>
  Modelled from the spec: \<open>delAllCachedViews\<close> of the missing store module. closeAll
  "removes every non-affixed VisitedView/CachedView": a cached name survives when it is
  the name of an affixed view of the registry.
\<close>

definition delAllCachedViews :: "Shell \<Rightarrow> Shell" where
  "delAllCachedViews s =
     record_call DelAllCachedViews
       (s\<lparr>cachedViews := filter (\<lambda>c. c \<in> set (affixedNames (visitedViews s))) (cachedViews s)\<rparr>)"

subsection \<open>The component\<close>

definition isActive :: "Shell \<Rightarrow> TagView \<Rightarrow> bool" where
  "isActive s tag = (path tag = Some (route_path s))"

text \<open>
  \<open>filterAffixTags\<close>: \<open>resolve\<close> is \<open>path.resolve\<close> of the library
  path-browserify, taken as a parameter. The children of a route are walked with the
  route's own (unresolved) path as base path, as in the source.
\<close>

fun filterAffixTags :: "(string \<Rightarrow> string \<Rightarrow> string) \<Rightarrow> RouteRecordRaw list \<Rightarrow> string \<Rightarrow> TagView list" where
  "filterAffixTags resolve [] basePath = []"
| "filterAffixTags resolve (RouteRecordRaw p n m children # routes) basePath =
     (if metaAffix m
      then [\<lparr>fullPath = Some (resolve basePath p), path = Some (resolve basePath p),
              name = n, query = None, meta = m\<rparr>]
      else [])
     @ filterAffixTags resolve children p
     @ filterAffixTags resolve routes basePath"

text \<open>\<open>initTags\<close>: a tag is registered only when it has a (non-empty) name.\<close>

fun addAffixTags :: "TagView list \<Rightarrow> Shell \<Rightarrow> Shell" where
  "addAffixTags [] s = s"
| "addAffixTags (tag # tags) s =
     addAffixTags tags
       (case name tag of
          None \<Rightarrow> s
        | Some n \<Rightarrow> if n = [] then s else addVisitedView tag s)"

definition initTags :: "(string \<Rightarrow> string \<Rightarrow> string) \<Rightarrow> RouteRecordRaw list \<Rightarrow> Shell \<Rightarrow> Shell" where
  "initTags resolve routes s =
     (let tags = filterAffixTags resolve routes ''/''
      in addAffixTags tags (s\<lparr>affixTags := tags\<rparr>))"

definition asTagView :: "RouteLocationNormalized \<Rightarrow> TagView" where
  "asTagView r = \<lparr>fullPath = Some (rl_fullPath r), path = Some (rl_path r),
     name = rl_name r, query = Some (rl_query r), meta = Some (rl_meta r)\<rparr>"

definition addTags :: "RouteLocationNormalized \<Rightarrow> Shell \<Rightarrow> Shell" where
  "addTags r s =
     (case rl_name r of
        None \<Rightarrow> s
      | Some n \<Rightarrow> if n = [] then s
                  else addCachedView (asTagView r) (addVisitedView (asTagView r) s))"

text \<open>The route listener: the current route becomes \<open>r\<close>, then \<open>addTags\<close> runs.\<close>

definition routeChange :: "RouteLocationNormalized \<Rightarrow> Shell \<Rightarrow> Shell" where
  "routeChange r s = addTags r (s\<lparr>route_path := rl_path r\<rparr>)"

definition refreshSelectedTag :: "TagView \<Rightarrow> Shell \<Rightarrow> Shell" where
  "refreshSelectedTag view s =
     router_replace (PathQuery (''/redirect'' @ interpolate (path view)) (query view))
       (delCachedView view s)"

text \<open>\<open>toLastView\<close>: \<open>visitedViews.slice(-1)[0]\<close> is the last element, or
  \<open>undefined\<close> for the empty list.\<close>

definition toLastView :: "TagView list \<Rightarrow> TagView \<Rightarrow> Shell \<Rightarrow> Shell" where
  "toLastView views view s =
     (let latestView = (if views = [] then None else Some (last views));
          fullPath' = (case latestView of None \<Rightarrow> None | Some v \<Rightarrow> fullPath v)
      in case fullPath' of
           Some fp \<Rightarrow> router_push (PathString fp) s
         | None \<Rightarrow>
             if name view = Some ''Dashboard''
             then router_push (PathQuery (''/redirect'' @ interpolate (path view)) (query view)) s
             else router_push (PathString ''/'') s)"

definition closeSelectedTag :: "TagView \<Rightarrow> Shell \<Rightarrow> Shell" where
  "closeSelectedTag view s =
     (let s1 = delVisitedView view s;
          s2 = delCachedView view s1
      in if isActive s2 view then toLastView (visitedViews s2) view s2 else s2)"

definition closeOthersTags :: "Shell \<Rightarrow> Shell" where
  "closeOthersTags s =
     (let fullPath' = fullPath (selectedTag s);
          s1 = (case fullPath' of
                  None \<Rightarrow> s
                | Some fp \<Rightarrow> if fp \<noteq> route_path s then router_push (PathString fp) s else s);
          s2 = delOthersVisitedViews (selectedTag s1) s1
      in delOthersCachedViews (selectedTag s2) s2)"

definition closeAllTags :: "TagView \<Rightarrow> Shell \<Rightarrow> Shell" where
  "closeAllTags view s =
     (let s1 = delAllVisitedViews s;
          s2 = delAllCachedViews s1
      in if list_ex (\<lambda>tag. path tag = Some (route_path s2)) (affixTags s2) then s2
         else toLastView (visitedViews s2) view s2)"

text \<open>
  The close controls of the template. The middle click runs
  \<open>!isAffix(tag) && closeSelectedTag(tag)\<close>; the close icon and the menu entry "close"
  are rendered only under \<open>v-if="!isAffix(...)"\<close>, so on an affixed tag there is
  nothing to click and the state stays as it is.
\<close>

definition middleClick :: "TagView \<Rightarrow> Shell \<Rightarrow> Shell" where
  "middleClick tag s = (if \<not> isAffix tag then closeSelectedTag tag s else s)"

definition closeIconClick :: "TagView \<Rightarrow> Shell \<Rightarrow> Shell" where
  "closeIconClick tag s = (if \<not> isAffix tag then closeSelectedTag tag s else s)"

definition menuCloseClick :: "Shell \<Rightarrow> Shell" where
  "menuCloseClick s =
     (if \<not> isAffix (selectedTag s) then closeSelectedTag (selectedTag s) s else s)"

subsection \<open>The registry invariant\<close>

text \<open>
  The registry that \<open>initTags\<close> and the route listener build has one view per path, and
  every view in it has a \<open>fullPath\<close>; the close operations and the refresh keep both.
\<close>

definition registered :: "Shell \<Rightarrow> bool" where
  "registered s \<longleftrightarrow>
     distinct (map path (visitedViews s)) \<and> list_all (\<lambda>u. fullPath u \<noteq> None) (visitedViews s)"

section \<open>Theme (common/composables/useTheme.ts)\<close>

subsection \<open>Data\<close>

text \<open>
  The type \<open>ThemeName\<close> of the source is the union of the three string literals
  \<open>"normal" | "dark" | "dark-blue"\<close>; at run time a theme name is a string, and the
  functions below compare it as one.
\<close>

type_synonym ThemeName = string

definition DEFAULT_THEME_NAME :: ThemeName where
  "DEFAULT_THEME_NAME = ''normal''"

record ThemeList =
  tl_title :: string
  tl_name :: ThemeName

text \<open>The titles are the UTF-8 bytes of the three Chinese labels of the source.\<close>

definition themeList :: "ThemeList list" where
  "themeList =
     [\<lparr>tl_title = [CHR 0xE9, CHR 0xBB, CHR 0x98, CHR 0xE8, CHR 0xAE, CHR 0xA4],
        tl_name = DEFAULT_THEME_NAME\<rparr>,
      \<lparr>tl_title = [CHR 0xE9, CHR 0xBB, CHR 0x91, CHR 0xE6, CHR 0x9A, CHR 0x97],
        tl_name = ''dark''\<rparr>,
      \<lparr>tl_title = [CHR 0xE6, CHR 0xB7, CHR 0xB1, CHR 0xE8, CHR 0x93, CHR 0x9D],
        tl_name = ''dark-blue''\<rparr>]"

text \<open>The names of the registered themes.\<close>

definition themeNames :: "ThemeName list" where
  "themeNames = map tl_name themeList"

text \<open>A value written to a CSS variable: a length \<open>`${n}px`\<close> or a literal.\<close>

datatype CssValue = Px real | Lit string

text \<open>The calls made on \<open>document.documentElement.classList\<close>, in order.\<close>

datatype DomCall = ClassListRemove "string list" | ClassListAdd string

record ThemeState =
  activeThemeName :: ThemeName
  cssVars :: "string \<rightharpoonup> CssValue"
  classList :: "string list"
  storedThemeName :: "string option"
  domCalls :: "DomCall list"

text \<open>
  The exceptions of \<open>classList.add\<close> and \<open>classList.remove\<close> (DOM standard): a
  \<open>SyntaxError\<close> for the empty token, an \<open>InvalidCharacterError\<close> for a token that
  contains ASCII whitespace.
\<close>

datatype DomError = SyntaxError | InvalidCharacterError

text \<open>
  How a call ends: it returns, or an exception leaves it; in both cases with the state
  reached until then.
\<close>

datatype Outcome = Done ThemeState | Raised DomError ThemeState

fun outcomeState :: "Outcome \<Rightarrow> ThemeState" where
  "outcomeState (Done s) = s"
| "outcomeState (Raised err s) = s"

fun raised :: "Outcome \<Rightarrow> DomError option" where
  "raised (Done s) = None"
| "raised (Raised err s) = Some err"

record MouseEvent =
  clientX :: real
  clientY :: real

record Window =
  innerWidth :: real
  innerHeight :: real

subsection \<open>Operations\<close>

text \<open>
  \<open>Math.hypot\<close> and the coordinates in exact real arithmetic: the rounding of the
  floating-point operations is not modelled.
\<close>

definition hypot :: "real \<Rightarrow> real \<Rightarrow> real" where
  "hypot a b = sqrt (a\<^sup>2 + b\<^sup>2)"

text \<open>
  Modelled from the spec: \<open>setCssVar\<close> of the missing module \<open>@@/utils/css\<close>. apply
  "stores radius and coordinates as transient style parameters".
\<close>

definition setCssVar :: "string \<Rightarrow> CssValue \<Rightarrow> ThemeState \<Rightarrow> ThemeState" where
  "setCssVar varName v s = s\<lparr>cssVars := (cssVars s)(varName \<mapsto> v)\<rparr>"

text \<open>
  Modelled from the spec: \<open>setActiveThemeName\<close> of the missing module
  \<open>@@/utils/cache/local-storage\<close>. persist "writes activeThemeName to durable
  client-side storage".
\<close>

definition setActiveThemeName :: "ThemeName \<Rightarrow> ThemeState \<Rightarrow> ThemeState" where
  "setActiveThemeName v s = s\<lparr>storedThemeName := Some v\<rparr>"

text \<open>
  The initial value \<open>getActiveThemeName() || DEFAULT_THEME_NAME\<close>: the argument is
  what \<open>getActiveThemeName()\<close> of the missing module returns (\<open>None\<close> for
  \<open>null\<close>); \<open>||\<close> takes the right side for \<open>null\<close> and for the empty string.
\<close>

definition initialActiveThemeName :: "string option \<Rightarrow> ThemeName" where
  "initialActiveThemeName stored =
     (case stored of
        None \<Rightarrow> DEFAULT_THEME_NAME
      | Some v \<Rightarrow> if v = [] then DEFAULT_THEME_NAME else v)"

text \<open>The local constant \<open>maxRadius\<close> of \<open>setTheme\<close>.\<close>

definition maxRadius :: "Window \<Rightarrow> MouseEvent \<Rightarrow> real" where
  "maxRadius window e =
     hypot (max (clientX e) (innerWidth window - clientX e))
           (max (clientY e) (innerHeight window - clientY e))"

text \<open>
  \<open>setTheme\<close>. \<open>startViewTransition\<close> is \<open>document.startViewTransition\<close>:
  \<open>None\<close> where the browser has none, otherwise the browser's function, which receives
  the handler. When it runs the handler, and whether it raises, is the browser's business:
  \<open>setTheme\<close> ends as the primitive does. Nothing else in \<open>setTheme\<close> can raise.
\<close>

definition setTheme ::
  "Window \<Rightarrow> ((ThemeState \<Rightarrow> ThemeState) \<Rightarrow> ThemeState \<Rightarrow> Outcome) option
     \<Rightarrow> MouseEvent \<Rightarrow> ThemeName \<Rightarrow> ThemeState \<Rightarrow> Outcome" where
  "setTheme window startViewTransition e v s =
     (let s1 = setCssVar ''--v3-theme-x'' (Px (clientX e)) s;
          s2 = setCssVar ''--v3-theme-y'' (Px (clientY e)) s1;
          s3 = setCssVar ''--v3-theme-r'' (Px (maxRadius window e)) s2;
          s4 = (if v = ''dark'' then
                  setCssVar ''--v3-sidebar-active-text-color'' (Lit ''#333333'')
                    (setCssVar ''--v3-sidebar-hover-bg-color'' (Lit ''#d0d0d0'')
                      (setCssVar ''--v3-sidebar-text-color'' (Lit ''#505050'')
                        (setCssVar ''--v3-sidebar-bg-color'' (Lit ''#e8e8e8'') s3)))
                else if v = ''dark-blue'' then
                  setCssVar ''--v3-sidebar-active-text-color'' (Lit ''#6d5d4b'')
                    (setCssVar ''--v3-sidebar-hover-bg-color'' (Lit ''#e8d7c6'')
                      (setCssVar ''--v3-sidebar-text-color'' (Lit ''#8b7d6b'')
                        (setCssVar ''--v3-sidebar-bg-color'' (Lit ''#f9f0e6'') s3)))
                else
                  setCssVar ''--v3-sidebar-active-text-color'' (Lit ''#1890ff'')
                    (setCssVar ''--v3-sidebar-hover-bg-color'' (Lit ''#f5f7fa'')
                      (setCssVar ''--v3-sidebar-text-color'' (Lit ''#333333'')
                        (setCssVar ''--v3-sidebar-bg-color'' (Lit ''#ffffff'') s3))));
          handler = (\<lambda>t. t\<lparr>activeThemeName := v\<rparr>)
      in case startViewTransition of
           Some transition \<Rightarrow> transition handler s4
         | None \<Rightarrow> Done (handler s4))"

text \<open>
  The validation that \<open>classList.add\<close> and \<open>classList.remove\<close> run over their
  tokens, in order, before they change the list.
\<close>

definition asciiWhitespace :: "char \<Rightarrow> bool" where
  "asciiWhitespace c \<longleftrightarrow> c \<in> set [CHR 0x09, CHR 0x0A, CHR 0x0C, CHR 0x0D, CHR 0x20]"

fun tokensError :: "string list \<Rightarrow> DomError option" where
  "tokensError [] = None"
| "tokensError (token # tokens) =
     (if token = [] then Some SyntaxError
      else if list_ex asciiWhitespace token then Some InvalidCharacterError
      else tokensError tokens)"

text \<open>\<open>classList.add\<close>: a token already present is not added again.\<close>

definition addHtmlClass :: "ThemeName \<Rightarrow> ThemeState \<Rightarrow> Outcome" where
  "addHtmlClass v s =
     (let s' = s\<lparr>domCalls := domCalls s @ [ClassListAdd v]\<rparr>
      in case tokensError [v] of
           Some err \<Rightarrow> Raised err s'
         | None \<Rightarrow>
             Done (s'\<lparr>classList :=
               (if v \<in> set (classList s) then classList s else classList s @ [v])\<rparr>))"

definition removeHtmlClass :: "ThemeName \<Rightarrow> ThemeState \<Rightarrow> Outcome" where
  "removeHtmlClass v s =
     (let otherThemeNameList = filter (\<lambda>n. n \<noteq> v) (map tl_name themeList);
          s' = s\<lparr>domCalls := domCalls s @ [ClassListRemove otherThemeNameList]\<rparr>
      in case tokensError otherThemeNameList of
           Some err \<Rightarrow> Raised err s'
         | None \<Rightarrow>
             Done (s'\<lparr>classList :=
               filter (\<lambda>c. c \<notin> set otherThemeNameList) (classList s)\<rparr>))"

text \<open>
  The effect that \<open>initTheme\<close> registers with \<open>watchEffect\<close>: it runs once when
  \<open>initTheme\<close> is called and again after each change of \<open>activeThemeName\<close>. An
  exception ends it at the call that raised.
\<close>

definition themeEffect :: "ThemeState \<Rightarrow> Outcome" where
  "themeEffect s =
     (let v = activeThemeName s
      in case removeHtmlClass v s of
           Raised err t \<Rightarrow> Raised err t
         | Done s1 \<Rightarrow>
             (case addHtmlClass v s1 of
                Raised err t \<Rightarrow> Raised err t
              | Done s2 \<Rightarrow> Done (setActiveThemeName v s2)))"

definition initTheme :: "ThemeState \<Rightarrow> Outcome" where
  "initTheme s = themeEffect s"

text \<open>Euclidean distance in the plane, for the statement about the reveal radius.\<close>

definition distance :: "real \<times> real \<Rightarrow> real \<times> real \<Rightarrow> real" where
  "distance p q = sqrt ((fst p - fst q)\<^sup>2 + (snd p - snd q)\<^sup>2)"

section \<open>Example states\<close>

definition dashboard :: TagView where
  "dashboard = \<lparr>fullPath = Some ''/dashboard'', path = Some ''/dashboard'',
     name = Some ''Dashboard'', query = None,
     meta = Some \<lparr>title = Some ''Dashboard'', affix = Some True\<rparr>\<rparr>"

definition kbList :: TagView where
  "kbList = \<lparr>fullPath = Some ''/kb/list'', path = Some ''/kb/list'',
     name = Some ''KBList'', query = Some [],
     meta = Some \<lparr>title = Some ''List'', affix = None\<rparr>\<rparr>"

definition kbEdit :: TagView where
  "kbEdit = \<lparr>fullPath = Some ''/kb/edit?id=3'', path = Some ''/kb/edit'',
     name = Some ''KBEdit'', query = Some [(''id'', ''3'')],
     meta = Some \<lparr>title = Some ''Edit'', affix = None\<rparr>\<rparr>"

text \<open>The registry of the spec's scenario 7, with \<open>/kb/list\<close> as the active route.\<close>

definition shellList :: Shell where
  "shellList = \<lparr>visitedViews = [dashboard, kbList, kbEdit],
     cachedViews = [''KBList'', ''KBEdit''],
     affixTags = [dashboard], route_path = ''/kb/list'', selectedTag = kbList, calls = []\<rparr>"

text \<open>The same registry with \<open>/kb/edit?id=3\<close> as the active route.\<close>

definition shellEdit :: Shell where
  "shellEdit = shellList\<lparr>route_path := ''/kb/edit'', selectedTag := kbEdit\<rparr>"

definition themeStart :: ThemeState where
  "themeStart = \<lparr>activeThemeName = ''normal'', cssVars = Map.empty, classList = [''normal''],
     storedThemeName = None, domCalls = []\<rparr>"

definition click :: MouseEvent where
  "click = \<lparr>clientX = 3, clientY = 4\<rparr>"

definition viewport :: Window where
  "viewport = \<lparr>innerWidth = 6, innerHeight = 8\<rparr>"

text \<open>
  Two view-transition primitives: one has run the callback when it returns, the other
  returns first and leaves the callback to be run later.
\<close>

definition callingTransition :: "(ThemeState \<Rightarrow> ThemeState) \<Rightarrow> ThemeState \<Rightarrow> Outcome" where
  "callingTransition callback s = Done (callback s)"

definition deferringTransition :: "(ThemeState \<Rightarrow> ThemeState) \<Rightarrow> ThemeState \<Rightarrow> Outcome" where
  "deferringTransition callback s = Done s"

text \<open>The route record of the affixed \<open>/dashboard\<close>.\<close>

definition dashboardRoute :: RouteRecordRaw where
  "dashboardRoute = RouteRecordRaw ''/dashboard'' (Some ''Dashboard'')
     (Some \<lparr>title = Some ''Dashboard'', affix = Some True\<rparr>) []"

text \<open>
  A configuration with an affixed route that has no name, and the state after opening
  \<open>/kb/list\<close> and then \<open>/help\<close>. \<open>path.resolve\<close> returns an absolute path as it is.
\<close>

definition resolveAbsolute :: "string \<Rightarrow> string \<Rightarrow> string" where
  "resolveAbsolute basePath p = p"

definition helpRoute :: RouteRecordRaw where
  "helpRoute = RouteRecordRaw ''/help'' None (Some \<lparr>title = Some ''Help'', affix = Some True\<rparr>) []"

definition kbListRoute :: RouteRecordRaw where
  "kbListRoute = RouteRecordRaw ''/kb/list'' (Some ''KBList'')
     (Some \<lparr>title = Some ''List'', affix = None\<rparr>) []"

definition kbListLocation :: RouteLocationNormalized where
  "kbListLocation = \<lparr>rl_fullPath = ''/kb/list'', rl_path = ''/kb/list'',
     rl_name = Some ''KBList'', rl_query = [], rl_meta = \<lparr>title = Some ''List'', affix = None\<rparr>\<rparr>"

definition helpLocation :: RouteLocationNormalized where
  "helpLocation = \<lparr>rl_fullPath = ''/help'', rl_path = ''/help'',
     rl_name = None, rl_query = [], rl_meta = \<lparr>title = Some ''Help'', affix = Some True\<rparr>\<rparr>"

definition shellEmpty :: Shell where
  "shellEmpty = \<lparr>visitedViews = [], cachedViews = [], affixTags = [], route_path = ''/'',
     selectedTag = \<lparr>fullPath = None, path = None, name = None, query = None, meta = None\<rparr>,
     calls = []\<rparr>"

definition shellHelp :: Shell where
  "shellHelp = routeChange helpLocation (routeChange kbListLocation
     (initTags resolveAbsolute [helpRoute, kbListRoute] shellEmpty))"

section \<open>Properties\<close>

subsection \<open>What each store and router call changes\<close>

lemma delVisitedView_fields:
  "visitedViews (delVisitedView v s) = filter (\<lambda>u. path u \<noteq> path v) (visitedViews s)"
  "cachedViews (delVisitedView v s) = cachedViews s"
  "affixTags (delVisitedView v s) = affixTags s"
  "route_path (delVisitedView v s) = route_path s"
  "selectedTag (delVisitedView v s) = selectedTag s"
  "calls (delVisitedView v s) = calls s @ [DelVisitedView v]"
  by (simp_all add: delVisitedView_def record_call_def)

lemma delCachedView_fields:
  "visitedViews (delCachedView v s) = visitedViews s"
  "cachedViews (delCachedView v s) =
     (case name v of None \<Rightarrow> cachedViews s | Some n \<Rightarrow> filter (\<lambda>c. c \<noteq> n) (cachedViews s))"
  "affixTags (delCachedView v s) = affixTags s"
  "route_path (delCachedView v s) = route_path s"
  "selectedTag (delCachedView v s) = selectedTag s"
  "calls (delCachedView v s) = calls s @ [DelCachedView v]"
  by (simp_all add: delCachedView_def record_call_def split: option.splits)

lemma delOthersVisitedViews_fields:
  "visitedViews (delOthersVisitedViews v s) =
     filter (\<lambda>u. isAffix u \<or> path u = path v) (visitedViews s)"
  "cachedViews (delOthersVisitedViews v s) = cachedViews s"
  "affixTags (delOthersVisitedViews v s) = affixTags s"
  "route_path (delOthersVisitedViews v s) = route_path s"
  "selectedTag (delOthersVisitedViews v s) = selectedTag s"
  "calls (delOthersVisitedViews v s) = calls s @ [DelOthersVisitedViews v]"
  by (simp_all add: delOthersVisitedViews_def record_call_def)

lemma delOthersCachedViews_fields:
  "visitedViews (delOthersCachedViews v s) = visitedViews s"
  "cachedViews (delOthersCachedViews v s) =
     filter (\<lambda>c. Some c = name v \<or> c \<in> set (affixedNames (visitedViews s))) (cachedViews s)"
  "affixTags (delOthersCachedViews v s) = affixTags s"
  "route_path (delOthersCachedViews v s) = route_path s"
  "selectedTag (delOthersCachedViews v s) = selectedTag s"
  "calls (delOthersCachedViews v s) = calls s @ [DelOthersCachedViews v]"
  by (simp_all add: delOthersCachedViews_def record_call_def)

lemma delAllVisitedViews_fields:
  "visitedViews (delAllVisitedViews s) = filter isAffix (visitedViews s)"
  "cachedViews (delAllVisitedViews s) = cachedViews s"
  "affixTags (delAllVisitedViews s) = affixTags s"
  "route_path (delAllVisitedViews s) = route_path s"
  "selectedTag (delAllVisitedViews s) = selectedTag s"
  "calls (delAllVisitedViews s) = calls s @ [DelAllVisitedViews]"
  by (simp_all add: delAllVisitedViews_def record_call_def)

lemma delAllCachedViews_fields:
  "visitedViews (delAllCachedViews s) = visitedViews s"
  "cachedViews (delAllCachedViews s) =
     filter (\<lambda>c. c \<in> set (affixedNames (visitedViews s))) (cachedViews s)"
  "affixTags (delAllCachedViews s) = affixTags s"
  "route_path (delAllCachedViews s) = route_path s"
  "selectedTag (delAllCachedViews s) = selectedTag s"
  "calls (delAllCachedViews s) = calls s @ [DelAllCachedViews]"
  by (simp_all add: delAllCachedViews_def record_call_def)

lemma router_fields:
  "visitedViews (router_push to s) = visitedViews s"
  "cachedViews (router_push to s) = cachedViews s"
  "affixTags (router_push to s) = affixTags s"
  "route_path (router_push to s) = route_path s"
  "selectedTag (router_push to s) = selectedTag s"
  "calls (router_push to s) = calls s @ [RouterPush to]"
  "visitedViews (router_replace to s) = visitedViews s"
  "cachedViews (router_replace to s) = cachedViews s"
  "affixTags (router_replace to s) = affixTags s"
  "route_path (router_replace to s) = route_path s"
  "selectedTag (router_replace to s) = selectedTag s"
  "calls (router_replace to s) = calls s @ [RouterReplace to]"
  by (simp_all add: router_push_def router_replace_def record_call_def)

lemma toLastView_fields:
  "visitedViews (toLastView views view s) = visitedViews s"
  "cachedViews (toLastView views view s) = cachedViews s"
  "affixTags (toLastView views view s) = affixTags s"
  "route_path (toLastView views view s) = route_path s"
  "selectedTag (toLastView views view s) = selectedTag s"
  by (simp_all add: toLastView_def router_fields Let_def split: option.splits)

text \<open>\<open>toLastView\<close> issues exactly one \<open>router.push\<close>.\<close>

lemma toLastView_calls:
  "calls (toLastView views view s) = calls s @
     [RouterPush
       (case (if views = [] then None else fullPath (last views)) of
          Some fp \<Rightarrow> PathString fp
        | None \<Rightarrow> if name view = Some ''Dashboard''
            then PathQuery (''/redirect'' @ interpolate (path view)) (query view)
            else PathString ''/'')]"
  by (simp add: toLastView_def router_fields Let_def split: option.splits)

text \<open>Filtering the visited views keeps the registry invariant.\<close>

lemma registered_filter:
  "registered s \<Longrightarrow> visitedViews s' = filter P (visitedViews s) \<Longrightarrow> registered s'"
  by (simp add: registered_def distinct_map_filter list_all_iff)

subsection \<open>Closing one tab\<close>

lemma closeSelectedTag_visited:
  "visitedViews (closeSelectedTag v s) = filter (\<lambda>u. path u \<noteq> path v) (visitedViews s)"
  by (simp add: closeSelectedTag_def Let_def toLastView_fields delVisitedView_fields
      delCachedView_fields)

lemma closeSelectedTag_cached:
  "cachedViews (closeSelectedTag v s) =
     (case name v of None \<Rightarrow> cachedViews s | Some n \<Rightarrow> filter (\<lambda>c. c \<noteq> n) (cachedViews s))"
  by (simp add: closeSelectedTag_def Let_def toLastView_fields delVisitedView_fields
      delCachedView_fields split: option.splits)

lemma closeSelectedTag_navigations:
  "navigations (closeSelectedTag v s) = navigations s @
     (if path v = Some (route_path s)
      then [RouterPush
        (case (if visitedViews (closeSelectedTag v s) = [] then None
               else fullPath (last (visitedViews (closeSelectedTag v s)))) of
           Some fp \<Rightarrow> PathString fp
         | None \<Rightarrow> if name v = Some ''Dashboard''
             then PathQuery (''/redirect'' @ interpolate (path v)) (query v)
             else PathString ''/'')]
      else [])"
  unfolding closeSelectedTag_visited
  by (simp add: closeSelectedTag_def Let_def isActive_def navigations_def toLastView_calls
      delVisitedView_fields delCachedView_fields)

lemmas example_defs = dashboard_def kbList_def kbEdit_def shellList_def shellEdit_def

lemma shellList_close_kbList:
  "visitedViews (closeSelectedTag kbList shellList) = [dashboard, kbEdit]"
  "cachedViews (closeSelectedTag kbList shellList) = [''KBEdit'']"
  by (simp_all add: closeSelectedTag_visited closeSelectedTag_cached example_defs)

text \<open>
  Claim C1. \<open>closeSelectedTag v\<close> (closeOne) removes \<open>v\<close> from the visited views (every
  entry with the path of \<open>v\<close>) and the name of \<open>v\<close> from the cached views. It issues a
  navigation if and only if \<open>v\<close> is the active view (\<open>path v\<close> is the current route
  path), and then exactly one: to the last entry of the surviving visited views (its
  \<open>fullPath\<close>); when no view survives, to \<open>/redirect\<close> followed by the path of \<open>v\<close>,
  with the query of \<open>v\<close>, if the name of \<open>v\<close> is \<open>Dashboard\<close>, and to the root \<open>/\<close>
  otherwise. Closing a view that is not active issues no navigation. The target of the
  push is the \<open>fullPath\<close> of the last entry; in a registry that satisfies \<open>registered\<close>
  (as every registry built by \<open>initTags\<close> and the route listener does) each entry has
  one.
\<close>

theorem closeOne_removes_and_redirects:
  "s' = closeSelectedTag v s \<Longrightarrow>
     visitedViews s' = filter (\<lambda>u. path u \<noteq> path v) (visitedViews s)
   \<and> v \<notin> set (visitedViews s')
   \<and> (\<forall>n. name v = Some n \<longrightarrow>
         n \<notin> set (cachedViews s') \<and> cachedViews s' = filter (\<lambda>c. c \<noteq> n) (cachedViews s))
   \<and> (navigations s' \<noteq> navigations s \<longleftrightarrow> path v = Some (route_path s))
   \<and> (path v \<noteq> Some (route_path s) \<longrightarrow> navigations s' = navigations s)
   \<and> (path v = Some (route_path s) \<longrightarrow>
        (\<forall>fp. visitedViews s' \<noteq> [] \<and> fullPath (last (visitedViews s')) = Some fp \<longrightarrow>
            navigations s' = navigations s @ [RouterPush (PathString fp)])
      \<and> (visitedViews s' = [] \<and> name v = Some ''Dashboard'' \<longrightarrow>
            navigations s' = navigations s @
              [RouterPush (PathQuery (''/redirect'' @ route_path s) (query v))])
      \<and> (visitedViews s' = [] \<and> name v \<noteq> Some ''Dashboard'' \<longrightarrow>
            navigations s' = navigations s @ [RouterPush (PathString ''/'')]))
   \<and> (registered s \<and> path v = Some (route_path s) \<and> visitedViews s' \<noteq> [] \<longrightarrow>
        (\<exists>fp. fullPath (last (visitedViews s')) = Some fp
           \<and> navigations s' = navigations s @ [RouterPush (PathString fp)]))"
proof -
  assume s': "s' = closeSelectedTag v s"
  have vis: "visitedViews s' = filter (\<lambda>u. path u \<noteq> path v) (visitedViews s)"
    by (simp add: s' closeSelectedTag_visited)
  have notin: "v \<notin> set (visitedViews s')"
    by (simp add: vis)
  have cached: "\<forall>n. name v = Some n \<longrightarrow>
         n \<notin> set (cachedViews s') \<and> cachedViews s' = filter (\<lambda>c. c \<noteq> n) (cachedViews s)"
    by (simp add: s' closeSelectedTag_cached)
  have nav: "navigations s' = navigations s @
     (if path v = Some (route_path s)
      then [RouterPush
        (case (if visitedViews s' = [] then None else fullPath (last (visitedViews s'))) of
           Some fp \<Rightarrow> PathString fp
         | None \<Rightarrow> if name v = Some ''Dashboard''
             then PathQuery (''/redirect'' @ interpolate (path v)) (query v)
             else PathString ''/'')]
      else [])"
    unfolding s' by (rule closeSelectedTag_navigations)
  have iff: "navigations s' \<noteq> navigations s \<longleftrightarrow> path v = Some (route_path s)"
    unfolding nav by simp
  have inactive: "path v \<noteq> Some (route_path s) \<longrightarrow> navigations s' = navigations s"
    unfolding nav by simp
  have active1: "path v = Some (route_path s) \<longrightarrow>
        (\<forall>fp. visitedViews s' \<noteq> [] \<and> fullPath (last (visitedViews s')) = Some fp \<longrightarrow>
            navigations s' = navigations s @ [RouterPush (PathString fp)])"
    unfolding nav by simp
  have active2: "path v = Some (route_path s) \<longrightarrow>
       (visitedViews s' = [] \<and> name v = Some ''Dashboard'' \<longrightarrow>
            navigations s' = navigations s @
              [RouterPush (PathQuery (''/redirect'' @ route_path s) (query v))])"
    unfolding nav by (simp add: interpolate_def)
  have active3: "path v = Some (route_path s) \<longrightarrow>
       (visitedViews s' = [] \<and> name v \<noteq> Some ''Dashboard'' \<longrightarrow>
            navigations s' = navigations s @ [RouterPush (PathString ''/'')])"
    unfolding nav by simp
  have reg: "registered s \<and> path v = Some (route_path s) \<and> visitedViews s' \<noteq> [] \<longrightarrow>
        (\<exists>fp. fullPath (last (visitedViews s')) = Some fp
           \<and> navigations s' = navigations s @ [RouterPush (PathString fp)])"
  proof (intro impI, elim conjE)
    assume r: "registered s" and act: "path v = Some (route_path s)"
      and ne: "visitedViews s' \<noteq> []"
    have "registered s'"
      using r vis by (rule registered_filter)
    then have "fullPath (last (visitedViews s')) \<noteq> None"
      using ne by (simp add: registered_def list_all_iff)
    then obtain fp where fp: "fullPath (last (visitedViews s')) = Some fp"
      by blast
    with active1 act ne show "\<exists>fp. fullPath (last (visitedViews s')) = Some fp
           \<and> navigations s' = navigations s @ [RouterPush (PathString fp)]"
      by blast
  qed
  from vis notin cached iff inactive active1 active2 active3 reg show ?thesis by blast
qed

text \<open>
  The spec's scenario 7: closing \<open>/kb/list\<close> while it is the active route redirects to
  \<open>/kb/edit?id=3\<close>, the last remaining view.
\<close>

theorem closeOne_removes_and_redirects_witness:
  "kbList \<notin> set (visitedViews (closeSelectedTag kbList shellList))
   \<and> ''KBList'' \<notin> set (cachedViews (closeSelectedTag kbList shellList))
   \<and> path kbList = Some (route_path shellList)
   \<and> navigations (closeSelectedTag kbList shellList) = [RouterPush (PathString ''/kb/edit?id=3'')]"
proof -
  have n0: "navigations shellList = []"
    by (simp add: navigations_def shellList_def)
  have act: "path kbList = Some (route_path shellList)"
    by (simp add: example_defs)
  have nm: "name kbList = Some ''KBList''"
    by (simp add: example_defs)
  have lst: "visitedViews (closeSelectedTag kbList shellList) \<noteq> []
     \<and> fullPath (last (visitedViews (closeSelectedTag kbList shellList))) = Some ''/kb/edit?id=3''"
    by (simp add: shellList_close_kbList kbEdit_def)
  from closeOne_removes_and_redirects [OF refl, of kbList shellList] act nm lst n0
  show ?thesis by simp
qed

subsection \<open>Refreshing a tab\<close>

lemma refreshSelectedTag_fields:
  "visitedViews (refreshSelectedTag v s) = visitedViews s"
  "cachedViews (refreshSelectedTag v s) =
     (case name v of None \<Rightarrow> cachedViews s | Some n \<Rightarrow> filter (\<lambda>c. c \<noteq> n) (cachedViews s))"
  "route_path (refreshSelectedTag v s) = route_path s"
  "calls (refreshSelectedTag v s) = calls s @
     [DelCachedView v,
      RouterReplace (PathQuery (''/redirect'' @ interpolate (path v)) (query v))]"
  by (simp_all add: refreshSelectedTag_def router_fields delCachedView_fields)

lemma addVisitedView_present:
  "list_ex (\<lambda>u. path u = path v) (visitedViews s) \<Longrightarrow>
     visitedViews (addVisitedView v s) = visitedViews s"
  by (simp add: addVisitedView_def record_call_def)

lemma addCachedView_visited:
  "visitedViews (addCachedView v s) = visitedViews s"
  by (simp add: addCachedView_def record_call_def split: option.splits)

lemma routeChange_present:
  assumes "list_ex (\<lambda>u. path u = Some (rl_path r)) (visitedViews s)"
  shows "visitedViews (routeChange r s) = visitedViews s"
proof -
  let ?t = "s\<lparr>route_path := rl_path r\<rparr>"
  have "list_ex (\<lambda>u. path u = path (asTagView r)) (visitedViews ?t)"
    using assms by (simp add: asTagView_def)
  then have "visitedViews (addVisitedView (asTagView r) ?t) = visitedViews s"
    by (simp add: addVisitedView_present)
  then show ?thesis
    by (simp add: routeChange_def addTags_def addCachedView_visited split: option.splits)
qed

text \<open>
  Claim C5. \<open>refreshSelectedTag v\<close> (refresh) removes the name of \<open>v\<close> from the cached
  views and leaves the visited views as they are, so the path of \<open>v\<close> stays and nothing
  is duplicated; it issues exactly one navigation, a \<open>router.replace\<close> to \<open>/redirect\<close>
  followed by the path of \<open>v\<close>, with the query of \<open>v\<close>. When the route listener then
  reports a route whose path is already registered, the visited views are still the same.
\<close>

theorem refresh_uncaches_once:
  "s' = refreshSelectedTag v s \<Longrightarrow>
     visitedViews s' = visitedViews s
   \<and> (\<forall>n. name v = Some n \<longrightarrow>
         n \<notin> set (cachedViews s') \<and> cachedViews s' = filter (\<lambda>c. c \<noteq> n) (cachedViews s))
   \<and> navigations s' = navigations s @
        [RouterReplace (PathQuery (''/redirect'' @ interpolate (path v)) (query v))]
   \<and> (\<forall>p. path v = Some p \<longrightarrow>
         navigations s' = navigations s @ [RouterReplace (PathQuery (''/redirect'' @ p) (query v))])
   \<and> (\<forall>r. list_ex (\<lambda>u. path u = Some (rl_path r)) (visitedViews s) \<longrightarrow>
         visitedViews (routeChange r s') = visitedViews s)"
proof -
  assume s': "s' = refreshSelectedTag v s"
  have vis: "visitedViews s' = visitedViews s"
    by (simp add: s' refreshSelectedTag_fields)
  have cached: "\<forall>n. name v = Some n \<longrightarrow>
         n \<notin> set (cachedViews s') \<and> cachedViews s' = filter (\<lambda>c. c \<noteq> n) (cachedViews s)"
    by (simp add: s' refreshSelectedTag_fields)
  have nav: "navigations s' = navigations s @
        [RouterReplace (PathQuery (''/redirect'' @ interpolate (path v)) (query v))]"
    by (simp add: s' navigations_def refreshSelectedTag_fields)
  have nav_path: "\<forall>p. path v = Some p \<longrightarrow>
         navigations s' = navigations s @ [RouterReplace (PathQuery (''/redirect'' @ p) (query v))]"
    by (simp add: nav interpolate_def)
  have again: "\<forall>r. list_ex (\<lambda>u. path u = Some (rl_path r)) (visitedViews s) \<longrightarrow>
         visitedViews (routeChange r s') = visitedViews s"
    using routeChange_present [of _ s'] by (simp add: vis)
  from vis cached nav nav_path again show ?thesis by blast
qed

theorem refresh_uncaches_once_witness:
  "visitedViews (refreshSelectedTag kbEdit shellEdit) = [dashboard, kbList, kbEdit]
   \<and> cachedViews (refreshSelectedTag kbEdit shellEdit) = [''KBList'']
   \<and> navigations (refreshSelectedTag kbEdit shellEdit) =
        [RouterReplace (PathQuery ''/redirect/kb/edit'' (Some [(''id'', ''3'')]))]"
proof -
  have nm: "name kbEdit = Some ''KBEdit''" and pt: "path kbEdit = Some ''/kb/edit''"
    and qr: "query kbEdit = Some [(''id'', ''3'')]"
    by (simp_all add: kbEdit_def)
  have st: "visitedViews shellEdit = [dashboard, kbList, kbEdit]"
    "cachedViews shellEdit = [''KBList'', ''KBEdit'']" "navigations shellEdit = []"
    by (simp_all add: shellEdit_def shellList_def navigations_def)
  from refresh_uncaches_once [OF refl, of kbEdit shellEdit] nm pt qr st
  show ?thesis by (simp add: interpolate_def)
qed

subsection \<open>Closing the other tabs\<close>

lemma filter_isAffix_keep:
  "filter isAffix (filter (\<lambda>u. isAffix u \<or> P u) vs) = filter isAffix vs"
  by (induction vs) auto

lemma affixedNames_keep:
  "affixedNames (filter (\<lambda>u. isAffix u \<or> P u) vs) = affixedNames vs"
  by (simp only: affixedNames_def filter_isAffix_keep)

lemma closeOthersTags_fields:
  "visitedViews (closeOthersTags s) =
     filter (\<lambda>u. isAffix u \<or> path u = path (selectedTag s)) (visitedViews s)"
  "cachedViews (closeOthersTags s) =
     filter (\<lambda>c. Some c = name (selectedTag s) \<or> c \<in> set (affixedNames (visitedViews s)))
       (cachedViews s)"
  "calls (closeOthersTags s) = calls s @
     (case fullPath (selectedTag s) of
        None \<Rightarrow> []
      | Some fp \<Rightarrow> if fp \<noteq> route_path s then [RouterPush (PathString fp)] else [])
     @ [DelOthersVisitedViews (selectedTag s), DelOthersCachedViews (selectedTag s)]"
  by (simp_all add: closeOthersTags_def Let_def delOthersVisitedViews_fields
      delOthersCachedViews_fields router_fields affixedNames_keep split: option.splits)

lemma distinct_paths_eq:
  "distinct (map path vs) \<Longrightarrow> u \<in> set vs \<Longrightarrow> w \<in> set vs \<Longrightarrow> path u = path w \<Longrightarrow> u = w"
  by (meson distinct_map inj_onD)

text \<open>
  Claim C3. After \<open>closeOthersTags\<close> (closeOthers) on \<open>keep = selectedTag\<close> the
  visited views are \<open>keep\<close> and the affixed views, and a navigation to \<open>keep\<close> is to
  be issued beforehand if and only if the current route is not the path of \<open>keep\<close>.
  The code misses the second part: it compares the \<open>fullPath\<close> of \<open>keep\<close> with
  \<open>route.path\<close>, where \<open>isActive\<close> and \<open>closeAllTags\<close> compare the \<open>path\<close>. With
  \<open>/kb/edit?id=3\<close> selected while it is the active tab (\<open>isActive\<close> holds, its path
  is the current route path), \<open>closeOthersTags\<close> still pushes its \<open>fullPath\<close>.
  The surviving views are as the claim says.
\<close>

theorem closeOthers_navigates_on_active_view:
  "isActive shellEdit (selectedTag shellEdit)
   \<and> path (selectedTag shellEdit) = Some (route_path shellEdit)
   \<and> navigations shellEdit = []
   \<and> navigations (closeOthersTags shellEdit) = [RouterPush (PathString ''/kb/edit?id=3'')]
   \<and> visitedViews (closeOthersTags shellEdit) = [dashboard, kbEdit]"
proof -
  have affixed: "isAffix dashboard" "\<not> isAffix kbList" "\<not> isAffix kbEdit"
    by (simp_all add: isAffix_def metaAffix_def example_defs)
  have paths: "path kbList = Some ''/kb/list''" "path kbEdit = Some ''/kb/edit''"
    by (simp_all add: example_defs)
  have st: "selectedTag shellEdit = kbEdit" "route_path shellEdit = ''/kb/edit''"
    "visitedViews shellEdit = [dashboard, kbList, kbEdit]" "calls shellEdit = []"
    by (simp_all add: shellEdit_def shellList_def)
  have fp: "fullPath kbEdit = Some ''/kb/edit?id=3''"
    by (simp add: kbEdit_def)
  have a: "isActive shellEdit (selectedTag shellEdit)"
    by (simp add: isActive_def st paths)
  have n: "navigations (closeOthersTags shellEdit) = [RouterPush (PathString ''/kb/edit?id=3'')]"
    by (simp add: navigations_def closeOthersTags_fields st fp)
  have v: "visitedViews (closeOthersTags shellEdit) = [dashboard, kbEdit]"
    by (simp add: closeOthersTags_fields st affixed paths)
  from a n v show ?thesis
    by (simp add: st paths navigations_def)
qed

subsection \<open>Closing all tabs\<close>

lemma list_ex_path_iff:
  "list_ex (\<lambda>u. path u = Some p) us \<longleftrightarrow> Some p \<in> set (map path us)"
  by (force simp: list_ex_iff)

lemma closeAllTags_fields:
  "visitedViews (closeAllTags v s) = filter isAffix (visitedViews s)"
  "cachedViews (closeAllTags v s) =
     filter (\<lambda>c. c \<in> set (affixedNames (visitedViews s))) (cachedViews s)"
  by (simp_all add: closeAllTags_def Let_def toLastView_fields delAllVisitedViews_fields
      delAllCachedViews_fields affixedNames_def)

lemma closeAllTags_navigations:
  "navigations (closeAllTags v s) = navigations s @
     (if list_ex (\<lambda>tag. path tag = Some (route_path s)) (affixTags s) then []
      else [RouterPush
        (case (if visitedViews (closeAllTags v s) = [] then None
               else fullPath (last (visitedViews (closeAllTags v s)))) of
           Some fp \<Rightarrow> PathString fp
         | None \<Rightarrow> if name v = Some ''Dashboard''
             then PathQuery (''/redirect'' @ interpolate (path v)) (query v)
             else PathString ''/'')])"
  unfolding closeAllTags_fields
  by (simp add: closeAllTags_def Let_def navigations_def toLastView_calls
      delAllVisitedViews_fields delAllCachedViews_fields)

text \<open>
  Claim C4, as the code has it. \<open>closeAllTags v\<close> (closeAll) leaves exactly the affixed
  visited views and the cached names of affixed views. It issues no navigation when the
  current route path is the path of one of the affix tags collected from the route
  configuration at initialisation (\<open>affixTags\<close>), registered or not; otherwise it
  issues the one navigation of closeOne's rule: to the last surviving view, or, when none
  survives, to \<open>/redirect\<close> followed by the path of \<open>v\<close> if \<open>v\<close> is named
  \<open>Dashboard\<close> and to \<open>/\<close> if not. When the paths of the affix tags are the paths of
  the surviving views, this is the rule of the claim: no navigation if and only if the
  current route path belongs to a surviving view.
\<close>

theorem closeAll_keeps_affixed_and_redirects:
  "s' = closeAllTags v s \<Longrightarrow>
     visitedViews s' = filter isAffix (visitedViews s)
   \<and> set (visitedViews s') = {u \<in> set (visitedViews s). isAffix u}
   \<and> set (cachedViews s') = {c \<in> set (cachedViews s). c \<in> set (affixedNames (visitedViews s))}
   \<and> (list_ex (\<lambda>tag. path tag = Some (route_path s)) (affixTags s) \<longrightarrow>
         navigations s' = navigations s)
   \<and> (\<not> list_ex (\<lambda>tag. path tag = Some (route_path s)) (affixTags s) \<longrightarrow>
        (\<forall>fp. visitedViews s' \<noteq> [] \<and> fullPath (last (visitedViews s')) = Some fp \<longrightarrow>
            navigations s' = navigations s @ [RouterPush (PathString fp)])
      \<and> (visitedViews s' = [] \<and> name v = Some ''Dashboard'' \<longrightarrow>
            navigations s' = navigations s @
              [RouterPush (PathQuery (''/redirect'' @ interpolate (path v)) (query v))])
      \<and> (visitedViews s' = [] \<and> name v \<noteq> Some ''Dashboard'' \<longrightarrow>
            navigations s' = navigations s @ [RouterPush (PathString ''/'')]))
   \<and> (set (map path (affixTags s)) = set (map path (visitedViews s')) \<longrightarrow>
        (navigations s' = navigations s \<longleftrightarrow>
           list_ex (\<lambda>u. path u = Some (route_path s)) (visitedViews s')))"
proof -
  assume s': "s' = closeAllTags v s"
  let ?pinned = "list_ex (\<lambda>tag. path tag = Some (route_path s)) (affixTags s)"
  have vis: "visitedViews s' = filter isAffix (visitedViews s)"
    by (simp add: s' closeAllTags_fields)
  have vset: "set (visitedViews s') = {u \<in> set (visitedViews s). isAffix u}"
    by (simp add: vis)
  have cached: "set (cachedViews s') =
      {c \<in> set (cachedViews s). c \<in> set (affixedNames (visitedViews s))}"
    by (simp add: s' closeAllTags_fields)
  have nav: "navigations s' = navigations s @
     (if ?pinned then []
      else [RouterPush
        (case (if visitedViews s' = [] then None else fullPath (last (visitedViews s'))) of
           Some fp \<Rightarrow> PathString fp
         | None \<Rightarrow> if name v = Some ''Dashboard''
             then PathQuery (''/redirect'' @ interpolate (path v)) (query v)
             else PathString ''/'')])"
    unfolding s' by (rule closeAllTags_navigations)
  have stay: "?pinned \<longrightarrow> navigations s' = navigations s"
    unfolding nav by simp
  have go1: "\<not> ?pinned \<longrightarrow>
        (\<forall>fp. visitedViews s' \<noteq> [] \<and> fullPath (last (visitedViews s')) = Some fp \<longrightarrow>
            navigations s' = navigations s @ [RouterPush (PathString fp)])"
    unfolding nav by simp
  have go2: "\<not> ?pinned \<longrightarrow>
        (visitedViews s' = [] \<and> name v = Some ''Dashboard'' \<longrightarrow>
            navigations s' = navigations s @
              [RouterPush (PathQuery (''/redirect'' @ interpolate (path v)) (query v))])"
    unfolding nav by simp
  have go3: "\<not> ?pinned \<longrightarrow>
        (visitedViews s' = [] \<and> name v \<noteq> Some ''Dashboard'' \<longrightarrow>
            navigations s' = navigations s @ [RouterPush (PathString ''/'')])"
    unfolding nav by simp
  have iff: "navigations s' = navigations s \<longleftrightarrow> ?pinned"
    unfolding nav by simp
  have agree: "set (map path (affixTags s)) = set (map path (visitedViews s')) \<longrightarrow>
        (navigations s' = navigations s \<longleftrightarrow>
           list_ex (\<lambda>u. path u = Some (route_path s)) (visitedViews s'))"
    unfolding iff list_ex_path_iff by simp
  from vis vset cached stay go1 go2 go3 agree show ?thesis by blast
qed

text \<open>
  The claim as stated fails: in \<open>shellHelp\<close> the current route \<open>/help\<close> is an affixed
  route without a name, which is never registered. Closing all tabs leaves no view, so
  the current route path belongs to no surviving view, and still no navigation is issued.
\<close>

theorem closeAll_stays_on_unregistered_affix_route:
  "visitedViews shellHelp = [kbList]
   \<and> visitedViews (closeAllTags kbList shellHelp) = []
   \<and> navigations (closeAllTags kbList shellHelp) = []"
proof -
  have st: "visitedViews shellHelp = [kbList]" "route_path shellHelp = ''/help''"
    "map path (affixTags shellHelp) = [Some ''/help'']" "navigations shellHelp = []"
    by (simp_all add: shellHelp_def routeChange_def addTags_def initTags_def Let_def
      helpRoute_def kbListRoute_def kbListLocation_def helpLocation_def shellEmpty_def
      resolveAbsolute_def metaAffix_def asTagView_def addVisitedView_def addCachedView_def
      record_call_def kbList_def navigations_def)
  have pinned: "list_ex (\<lambda>tag. path tag = Some ''/help'') (affixTags shellHelp)"
    by (simp add: list_ex_path_iff st)
  have "\<not> isAffix kbList"
    by (simp add: isAffix_def metaAffix_def kbList_def)
  then have "visitedViews (closeAllTags kbList shellHelp) = []"
    by (simp add: closeAllTags_fields st)
  moreover have "navigations (closeAllTags kbList shellHelp) = []"
    by (simp add: closeAllTags_navigations pinned st)
  ultimately show ?thesis
    using st by simp
qed

text \<open>
  The second half of the spec's scenario 7: \<open>closeAll\<close> from \<open>/kb/edit\<close> leaves
  \<open>/dashboard\<close> and redirects to it.
\<close>

theorem closeAll_keeps_affixed_and_redirects_witness:
  "visitedViews (closeAllTags kbEdit shellEdit) = [dashboard]
   \<and> navigations (closeAllTags kbEdit shellEdit) = [RouterPush (PathString ''/dashboard'')]"
proof -
  have st: "visitedViews shellEdit = [dashboard, kbList, kbEdit]"
    "route_path shellEdit = ''/kb/edit''" "affixTags shellEdit = [dashboard]"
    "navigations shellEdit = []"
    by (simp_all add: shellEdit_def shellList_def navigations_def)
  have affixed: "isAffix dashboard" "\<not> isAffix kbList" "\<not> isAffix kbEdit"
    by (simp_all add: isAffix_def metaAffix_def example_defs)
  have dp: "path dashboard = Some ''/dashboard''" "fullPath dashboard = Some ''/dashboard''"
    by (simp_all add: dashboard_def)
  note T = closeAll_keeps_affixed_and_redirects [OF refl, of kbEdit shellEdit, unfolded st]
  have a: "visitedViews (closeAllTags kbEdit shellEdit) = [dashboard]"
    using T [THEN conjunct1] affixed by simp
  have "\<not> list_ex (\<lambda>tag. path tag = Some ''/kb/edit'') [dashboard]"
    by (simp add: dp)
  with T [THEN conjunct2, THEN conjunct2, THEN conjunct2, THEN conjunct2, THEN conjunct1]
  have "\<forall>fp. visitedViews (closeAllTags kbEdit shellEdit) \<noteq> [] \<and>
       fullPath (last (visitedViews (closeAllTags kbEdit shellEdit))) = Some fp \<longrightarrow>
       navigations (closeAllTags kbEdit shellEdit) = [] @ [RouterPush (PathString fp)]"
    by blast
  then have b: "navigations (closeAllTags kbEdit shellEdit) = [RouterPush (PathString ''/dashboard'')]"
    by (simp add: a dp)
  from a b show ?thesis by simp
qed

subsection \<open>Affixed tabs\<close>

text \<open>The tags seeded by \<open>initTags\<close> are affixed.\<close>

lemma filterAffixTags_affixed:
  "u \<in> set (filterAffixTags resolve routes basePath) \<Longrightarrow> isAffix u"
  by (induction resolve routes basePath rule: filterAffixTags.induct)
    (auto simp: isAffix_def split: if_splits)

lemma addVisitedView_subset:
  "set (visitedViews (addVisitedView v s)) \<subseteq> insert v (set (visitedViews s))"
  by (auto simp: addVisitedView_def record_call_def)

lemma addAffixTags_subset:
  "set (visitedViews (addAffixTags tags s)) \<subseteq> set (visitedViews s) \<union> set tags"
proof (induction tags arbitrary: s)
  case Nil
  show ?case by simp
next
  case (Cons tag tags)
  show ?case
    using Cons.IH [of s] Cons.IH [of "addVisitedView tag s"] addVisitedView_subset [of tag s]
    by (auto split: option.splits)
qed

lemma initTags_seeds_affixed:
  assumes "u \<in> set (visitedViews (initTags resolve routes s))"
  shows "u \<in> set (visitedViews s) \<or> isAffix u"
proof -
  let ?tags = "filterAffixTags resolve routes ''/''"
  have "u \<in> set (visitedViews (s\<lparr>affixTags := ?tags\<rparr>)) \<union> set ?tags"
    using assms addAffixTags_subset [of ?tags "s\<lparr>affixTags := ?tags\<rparr>"]
    by (auto simp: initTags_def Let_def)
  then show ?thesis
    by (auto dest: filterAffixTags_affixed)
qed

lemma other_path_survives:
  assumes "distinct (map path (visitedViews s))" and "V \<in> set (visitedViews s)"
    and "tag \<in> set (visitedViews s)" and "isAffix V" and "\<not> isAffix tag"
  shows "V \<in> set (visitedViews (closeSelectedTag tag s))"
proof -
  have "V \<noteq> tag"
    using assms(4,5) by auto
  then have "path V \<noteq> path tag"
    using distinct_paths_eq [OF assms(1,2,3)] by auto
  then show ?thesis
    by (simp add: closeSelectedTag_visited assms(2))
qed

text \<open>
  Claim C2. An affixed view stays in the visited views. The three close controls of the
  template (middle click, close icon, menu entry "close") are the only callers of
  \<open>closeSelectedTag\<close> (closeOne) and reach it only for a tab that is not affixed: used
  on an affixed view \<open>V\<close> they change nothing. In a registry with unique paths, no close
  control used on a registered tab removes an affixed view \<open>V\<close>, and neither do
  \<open>closeOthersTags\<close> and \<open>closeAllTags\<close>. Every view that \<open>initTags\<close> seeds is
  affixed, so all this holds for the seeded views.
\<close>

theorem affixed_views_are_never_closed:
  "(isAffix V \<longrightarrow>
      middleClick V s = s \<and> closeIconClick V s = s \<and> (selectedTag s = V \<longrightarrow> menuCloseClick s = s))
   \<and> (distinct (map path (visitedViews s)) \<and> V \<in> set (visitedViews s) \<and> isAffix V
       \<and> tag \<in> set (visitedViews s) \<and> selectedTag s \<in> set (visitedViews s) \<longrightarrow>
         V \<in> set (visitedViews (middleClick tag s))
       \<and> V \<in> set (visitedViews (closeIconClick tag s))
       \<and> V \<in> set (visitedViews (menuCloseClick s))
       \<and> V \<in> set (visitedViews (closeOthersTags s))
       \<and> V \<in> set (visitedViews (closeAllTags view s)))
   \<and> (V \<in> set (visitedViews (initTags resolve routes s)) \<longrightarrow>
         V \<in> set (visitedViews s) \<or> isAffix V)"
proof -
  have guard: "isAffix V \<longrightarrow>
      middleClick V s = s \<and> closeIconClick V s = s \<and> (selectedTag s = V \<longrightarrow> menuCloseClick s = s)"
    by (simp add: middleClick_def closeIconClick_def menuCloseClick_def)
  have kept: "V \<in> set (visitedViews (middleClick tag s))
       \<and> V \<in> set (visitedViews (closeIconClick tag s))
       \<and> V \<in> set (visitedViews (menuCloseClick s))
       \<and> V \<in> set (visitedViews (closeOthersTags s))
       \<and> V \<in> set (visitedViews (closeAllTags view s))"
    if d: "distinct (map path (visitedViews s))" and V: "V \<in> set (visitedViews s)"
      and a: "isAffix V" and t: "tag \<in> set (visitedViews s)"
      and sel: "selectedTag s \<in> set (visitedViews s)"
  proof -
    have middle: "V \<in> set (visitedViews (middleClick tag s))"
      using other_path_survives [OF d V t a] V by (simp add: middleClick_def)
    have icon: "V \<in> set (visitedViews (closeIconClick tag s))"
      using other_path_survives [OF d V t a] V by (simp add: closeIconClick_def)
    have menu: "V \<in> set (visitedViews (menuCloseClick s))"
      using other_path_survives [OF d V sel a] V by (simp add: menuCloseClick_def)
    have others: "V \<in> set (visitedViews (closeOthersTags s))"
      using V a by (simp add: closeOthersTags_fields)
    have all: "V \<in> set (visitedViews (closeAllTags view s))"
      using V a by (simp add: closeAllTags_fields)
    from middle icon menu others all show ?thesis by blast
  qed
  have seeded: "V \<in> set (visitedViews (initTags resolve routes s)) \<longrightarrow>
         V \<in> set (visitedViews s) \<or> isAffix V"
    using initTags_seeds_affixed by blast
  from guard kept seeded show ?thesis by blast
qed

text \<open>
  \<open>initTags\<close> seeds \<open>/dashboard\<close>; in the registry of scenario 7 no close control and
  no bulk close removes it.
\<close>

theorem affixed_views_are_never_closed_witness:
  "dashboard \<in> set (visitedViews (initTags resolveAbsolute [dashboardRoute] shellEmpty))
   \<and> isAffix dashboard
   \<and> middleClick dashboard shellList = shellList
   \<and> closeIconClick dashboard shellList = shellList
   \<and> dashboard \<in> set (visitedViews (middleClick kbEdit shellList))
   \<and> dashboard \<in> set (visitedViews (closeIconClick kbEdit shellList))
   \<and> dashboard \<in> set (visitedViews (menuCloseClick shellList))
   \<and> dashboard \<in> set (visitedViews (closeOthersTags shellList))
   \<and> dashboard \<in> set (visitedViews (closeAllTags kbList shellList))"
proof -
  have seed: "dashboard \<in> set (visitedViews (initTags resolveAbsolute [dashboardRoute] shellEmpty))"
    by (simp add: initTags_def Let_def dashboardRoute_def resolveAbsolute_def metaAffix_def
        shellEmpty_def addVisitedView_def record_call_def dashboard_def)
  have none: "dashboard \<notin> set (visitedViews shellEmpty)"
    by (simp add: shellEmpty_def)
  have d: "distinct (map path (visitedViews shellList))"
    by (simp add: example_defs)
  have V: "dashboard \<in> set (visitedViews shellList)"
    and e: "kbEdit \<in> set (visitedViews shellList)"
    and sel: "selectedTag shellList \<in> set (visitedViews shellList)"
    by (simp_all add: shellList_def)
  note S = affixed_views_are_never_closed
    [of dashboard shellEmpty dashboard undefined resolveAbsolute "[dashboardRoute]"]
  have a: "isAffix dashboard"
    using S [THEN conjunct2, THEN conjunct2] seed none by blast
  note T = affixed_views_are_never_closed [of dashboard shellList kbEdit kbList]
  have g: "middleClick dashboard shellList = shellList \<and> closeIconClick dashboard shellList = shellList"
    using T [THEN conjunct1] a by blast
  have k: "dashboard \<in> set (visitedViews (middleClick kbEdit shellList))
   \<and> dashboard \<in> set (visitedViews (closeIconClick kbEdit shellList))
   \<and> dashboard \<in> set (visitedViews (menuCloseClick shellList))
   \<and> dashboard \<in> set (visitedViews (closeOthersTags shellList))
   \<and> dashboard \<in> set (visitedViews (closeAllTags kbList shellList))"
    using T [THEN conjunct2, THEN conjunct1] d V a e sel by blast
  from seed a g k show ?thesis by blast
qed

subsection \<open>Invariants of the registry\<close>

lemma addVisitedView_registered:
  assumes "registered s" and "fullPath v \<noteq> None"
  shows "registered (addVisitedView v s)"
proof (cases "list_ex (\<lambda>u. path u = path v) (visitedViews s)")
  case True
  then show ?thesis
    using assms(1) by (simp add: registered_def addVisitedView_present)
next
  case False
  then have "path v \<notin> set (map path (visitedViews s))"
    by (auto simp: list_ex_iff)
  moreover have "visitedViews (addVisitedView v s) = visitedViews s @ [v]"
    using False by (simp add: addVisitedView_def record_call_def)
  ultimately show ?thesis
    using assms by (simp add: registered_def)
qed

lemma addAffixTags_registered:
  "registered s \<Longrightarrow> list_all (\<lambda>u. fullPath u \<noteq> None) tags \<Longrightarrow> registered (addAffixTags tags s)"
proof (induction tags arbitrary: s)
  case Nil
  then show ?case by simp
next
  case (Cons tag tags)
  then show ?case
    by (auto simp: addVisitedView_registered split: option.splits)
qed

lemma filterAffixTags_fullPath:
  "list_all (\<lambda>u. fullPath u \<noteq> None) (filterAffixTags resolve routes basePath)"
  by (induction resolve routes basePath rule: filterAffixTags.induct) simp_all

lemma initTags_registered:
  assumes "registered s"
  shows "registered (initTags resolve routes s)"
proof -
  let ?tags = "filterAffixTags resolve routes ''/''"
  have "registered (s\<lparr>affixTags := ?tags\<rparr>)"
    using assms by (simp add: registered_def)
  then have "registered (addAffixTags ?tags (s\<lparr>affixTags := ?tags\<rparr>))"
    using filterAffixTags_fullPath by (rule addAffixTags_registered)
  then show ?thesis
    by (simp add: initTags_def Let_def)
qed

lemma routeChange_registered:
  assumes "registered s"
  shows "registered (routeChange r s)"
proof -
  let ?t = "s\<lparr>route_path := rl_path r\<rparr>"
  have t: "registered ?t"
    using assms by (simp add: registered_def)
  have "registered (addVisitedView (asTagView r) ?t)"
    by (rule addVisitedView_registered [OF t]) (simp add: asTagView_def)
  then have "registered (addCachedView (asTagView r) (addVisitedView (asTagView r) ?t))"
    by (simp add: registered_def addCachedView_visited)
  with t show ?thesis
    by (simp add: routeChange_def addTags_def split: option.splits)
qed

lemma close_registered:
  assumes "registered s"
  shows "registered (closeSelectedTag v s)" and "registered (closeOthersTags s)"
    and "registered (closeAllTags v s)" and "registered (refreshSelectedTag v s)"
proof -
  show "registered (closeSelectedTag v s)"
    by (rule registered_filter [OF assms closeSelectedTag_visited])
  show "registered (closeOthersTags s)"
    by (rule registered_filter [OF assms closeOthersTags_fields(1)])
  show "registered (closeAllTags v s)"
    by (rule registered_filter [OF assms closeAllTags_fields(1)])
  show "registered (refreshSelectedTag v s)"
    using assms by (simp add: registered_def refreshSelectedTag_fields)
qed

lemma shellEmpty_registered: "registered shellEmpty"
  by (simp add: registered_def shellEmpty_def)

subsection \<open>The router primitive of each operation\<close>

text \<open>
  Claim C10. The one navigation of \<open>refreshSelectedTag v\<close> is a \<open>router.replace\<close> to
  the path \<open>/redirect\<close> followed by the path of \<open>v\<close>, with the query of \<open>v\<close>; every
  navigation that \<open>closeSelectedTag\<close>, \<open>closeOthersTags\<close> and \<open>closeAllTags\<close> add
  is a \<open>router.push\<close>.
\<close>

theorem refresh_replaces_close_pushes:
  "navigations (refreshSelectedTag v s) = navigations s @
      [RouterReplace (PathQuery (''/redirect'' @ interpolate (path v)) (query v))]
   \<and> (\<exists>new. navigations (closeSelectedTag v s) = navigations s @ new \<and> list_all isPush new)
   \<and> (\<exists>new. navigations (closeOthersTags s) = navigations s @ new \<and> list_all isPush new)
   \<and> (\<exists>new. navigations (closeAllTags v s) = navigations s @ new \<and> list_all isPush new)"
proof -
  have r: "navigations (refreshSelectedTag v s) = navigations s @
      [RouterReplace (PathQuery (''/redirect'' @ interpolate (path v)) (query v))]"
    by (simp add: navigations_def refreshSelectedTag_fields)
  have one: "\<exists>new. navigations (closeSelectedTag v s) = navigations s @ new \<and> list_all isPush new"
    by (subst closeSelectedTag_navigations) simp
  have others: "\<exists>new. navigations (closeOthersTags s) = navigations s @ new \<and> list_all isPush new"
    by (simp add: navigations_def closeOthersTags_fields split: option.splits)
  have all: "\<exists>new. navigations (closeAllTags v s) = navigations s @ new \<and> list_all isPush new"
    by (subst closeAllTags_navigations) simp
  from r one others all show ?thesis by blast
qed

theorem refresh_replaces_close_pushes_witness:
  "navigations (refreshSelectedTag kbList shellList) =
      [RouterReplace (PathQuery ''/redirect/kb/list'' (Some []))]
   \<and> navigations (closeSelectedTag kbList shellList) \<noteq> []
   \<and> list_all isPush (navigations (closeSelectedTag kbList shellList))"
proof -
  have n0: "navigations shellList = []"
    by (simp add: navigations_def shellList_def)
  have v: "path kbList = Some ''/kb/list''" "query kbList = Some []"
    by (simp_all add: kbList_def)
  note T = refresh_replaces_close_pushes [of kbList shellList, unfolded n0 v]
  have a: "navigations (refreshSelectedTag kbList shellList) =
      [RouterReplace (PathQuery ''/redirect/kb/list'' (Some []))]"
    using T [THEN conjunct1] by (simp add: interpolate_def)
  have b: "list_all isPush (navigations (closeSelectedTag kbList shellList))"
    using T [THEN conjunct2, THEN conjunct1] by auto
  have c: "navigations (closeSelectedTag kbList shellList) \<noteq> []"
    by (simp add: closeSelectedTag_navigations n0 shellList_def v)
  from a b c show ?thesis by simp
qed

subsection \<open>The reveal radius\<close>

lemma max_square:
  fixes x W :: real
  assumes "0 \<le> W"
  shows "(max x (W - x))\<^sup>2 = max (x\<^sup>2) ((x - W)\<^sup>2)"
proof (cases "W - x \<le> x")
  case True
  then have "\<bar>x - W\<bar> \<le> \<bar>x\<bar>"
    using assms by linarith
  then have "(x - W)\<^sup>2 \<le> x\<^sup>2"
    by (simp only: abs_le_square_iff)
  then have "max (x\<^sup>2) ((x - W)\<^sup>2) = x\<^sup>2"
    by (rule max_absorb1)
  moreover have "max x (W - x) = x"
    using True by (rule max_absorb1)
  ultimately show ?thesis
    by simp
next
  case False
  then have "\<bar>x\<bar> \<le> \<bar>x - W\<bar>"
    using assms by linarith
  then have "x\<^sup>2 \<le> (x - W)\<^sup>2"
    by (simp only: abs_le_square_iff)
  then have "max (x\<^sup>2) ((x - W)\<^sup>2) = (x - W)\<^sup>2"
    by (rule max_absorb2)
  moreover have "max x (W - x) = W - x"
    using False by (simp add: max_def)
  moreover have "(W - x)\<^sup>2 = (x - W)\<^sup>2"
    by (rule power2_commute)
  ultimately show ?thesis
    by simp
qed

lemma hypot_max:
  fixes p q r t :: real
  shows "sqrt (max p q + max r t) =
     Max {sqrt (p + r), sqrt (q + r), sqrt (p + t), sqrt (q + t)}"
proof (rule Max_eqI [symmetric])
  show "finite {sqrt (p + r), sqrt (q + r), sqrt (p + t), sqrt (q + t)}"
    by simp
  show "y \<le> sqrt (max p q + max r t)"
    if "y \<in> {sqrt (p + r), sqrt (q + r), sqrt (p + t), sqrt (q + t)}" for y
    using that by (auto intro!: add_mono)
  show "sqrt (max p q + max r t) \<in> {sqrt (p + r), sqrt (q + r), sqrt (p + t), sqrt (q + t)}"
    by (auto simp: max_def)
qed

text \<open>
  Claim C8. With viewport dimensions that are not negative, the radius \<open>maxRadius\<close>
  that \<open>setTheme\<close> computes from the click at \<open>(x, y)\<close>, the hypotenuse of
  \<open>max x (W - x)\<close> and \<open>max y (H - y)\<close>, is the greatest of the Euclidean distances from
  \<open>(x, y)\<close> to the four corners of the viewport; \<open>setTheme\<close> stores it in
  \<open>--v3-theme-r\<close>. The arithmetic is that of the real numbers.
\<close>

theorem maxRadius_is_farthest_corner:
  "0 \<le> innerWidth w \<Longrightarrow> 0 \<le> innerHeight w \<Longrightarrow>
   x = clientX e \<Longrightarrow> y = clientY e \<Longrightarrow> W = innerWidth w \<Longrightarrow> H = innerHeight w \<Longrightarrow>
     maxRadius w e = hypot (max x (W - x)) (max y (H - y))
   \<and> maxRadius w e =
       Max {distance (x, y) (0, 0), distance (x, y) (W, 0),
            distance (x, y) (0, H), distance (x, y) (W, H)}
   \<and> raised (setTheme w None e v s) = None
   \<and> cssVars (outcomeState (setTheme w None e v s)) ''--v3-theme-r'' = Some (Px (maxRadius w e))"
proof -
  assume W0: "0 \<le> innerWidth w" and H0: "0 \<le> innerHeight w"
    and x: "x = clientX e" and y: "y = clientY e"
    and W: "W = innerWidth w" and H: "H = innerHeight w"
  have r: "maxRadius w e = hypot (max x (W - x)) (max y (H - y))"
    by (simp add: maxRadius_def x y W H)
  have "hypot (max x (W - x)) (max y (H - y)) =
      sqrt (max (x\<^sup>2) ((x - W)\<^sup>2) + max (y\<^sup>2) ((y - H)\<^sup>2))"
    using W0 H0 by (simp add: hypot_def max_square W H)
  also have "\<dots> = Max {sqrt (x\<^sup>2 + y\<^sup>2), sqrt ((x - W)\<^sup>2 + y\<^sup>2),
      sqrt (x\<^sup>2 + (y - H)\<^sup>2), sqrt ((x - W)\<^sup>2 + (y - H)\<^sup>2)}"
    by (rule hypot_max)
  also have "\<dots> = Max {distance (x, y) (0, 0), distance (x, y) (W, 0),
      distance (x, y) (0, H), distance (x, y) (W, H)}"
    by (simp add: distance_def)
  finally have far: "maxRadius w e =
      Max {distance (x, y) (0, 0), distance (x, y) (W, 0),
           distance (x, y) (0, H), distance (x, y) (W, H)}"
    using r by simp
  have var: "raised (setTheme w None e v s) = None
      \<and> cssVars (outcomeState (setTheme w None e v s)) ''--v3-theme-r'' = Some (Px (maxRadius w e))"
    by (simp add: setTheme_def Let_def setCssVar_def)
  from r far var show ?thesis by blast
qed

theorem maxRadius_is_farthest_corner_witness:
  "(0::real) \<le> innerWidth viewport \<and> 0 \<le> innerHeight viewport
   \<and> maxRadius viewport click =
       Max {distance (3, 4) (0, 0), distance (3, 4) (6, 0),
            distance (3, 4) (0, 8), distance (3, 4) (6, 8)}
   \<and> maxRadius viewport click = 5"
proof -
  have w: "0 \<le> innerWidth viewport" "0 \<le> innerHeight viewport"
    by (simp_all add: viewport_def)
  have c: "3 = clientX click" "4 = clientY click" "6 = innerWidth viewport"
    "8 = innerHeight viewport"
    by (simp_all add: click_def viewport_def)
  note T = maxRadius_is_farthest_corner [OF w c]
  have "sqrt 25 = 5"
    by (rule real_sqrt_unique) simp_all
  then have "hypot 3 4 = 5"
    by (simp add: hypot_def)
  with T [THEN conjunct1] have "maxRadius viewport click = 5"
    by simp
  with w T [THEN conjunct2, THEN conjunct1] show ?thesis
    by simp
qed

subsection \<open>The theme class on the root element\<close>

lemma themeNames_eq: "themeNames = [''normal'', ''dark'', ''dark-blue'']"
  by (simp add: themeNames_def themeList_def DEFAULT_THEME_NAME_def)

text \<open>The registered names are valid class tokens.\<close>

lemma themeNames_valid: "tokensError (filter P themeNames) = None"
  by (simp add: themeNames_eq asciiWhitespace_def)

lemma registered_name_valid: "v \<in> set themeNames \<Longrightarrow> tokensError [v] = None"
  by (auto simp: themeNames_eq asciiWhitespace_def)

lemma invalid_name_unregistered: "tokensError [v] = Some err \<Longrightarrow> v \<notin> set themeNames"
  using registered_name_valid [of v] by auto

lemma removeHtmlClass_done:
  "removeHtmlClass v s =
     Done (s\<lparr>domCalls := domCalls s @ [ClassListRemove (filter (\<lambda>n. n \<noteq> v) themeNames)],
             classList := filter (\<lambda>c. c \<notin> set (filter (\<lambda>n. n \<noteq> v) themeNames)) (classList s)\<rparr>)"
  using themeNames_valid [of "\<lambda>n. n \<noteq> v"]
  by (simp add: removeHtmlClass_def Let_def themeNames_def)

lemma themeEffect_valid:
  assumes "tokensError [activeThemeName s] = None"
  shows "raised (themeEffect s) = None"
    and "set (classList (outcomeState (themeEffect s))) =
       insert (activeThemeName s)
         {c \<in> set (classList s). c \<notin> set (filter (\<lambda>n. n \<noteq> activeThemeName s) themeNames)}"
    and "domCalls (outcomeState (themeEffect s)) = domCalls s @
       [ClassListRemove (filter (\<lambda>n. n \<noteq> activeThemeName s) themeNames),
        ClassListAdd (activeThemeName s)]"
    and "storedThemeName (outcomeState (themeEffect s)) = Some (activeThemeName s)"
  using assms
  by (auto simp: themeEffect_def Let_def removeHtmlClass_done addHtmlClass_def
      setActiveThemeName_def)

lemma themeEffect_invalid:
  assumes "tokensError [activeThemeName s] = Some err"
  shows "raised (themeEffect s) = Some err"
    and "classList (outcomeState (themeEffect s)) =
       filter (\<lambda>c. c \<notin> set (filter (\<lambda>n. n \<noteq> activeThemeName s) themeNames)) (classList s)"
    and "storedThemeName (outcomeState (themeEffect s)) = storedThemeName s"
  using assms
  by (simp_all add: themeEffect_def Let_def removeHtmlClass_done addHtmlClass_def)

text \<open>The registered theme classes on the root after the effect, for every active name.\<close>

lemma themeEffect_classes:
  "{c \<in> set (classList (outcomeState (themeEffect s))). c \<in> set themeNames} =
     (if activeThemeName s \<in> set themeNames then {activeThemeName s} else {})"
proof (cases "tokensError [activeThemeName s]")
  case None
  show ?thesis
    unfolding themeEffect_valid(2) [OF None] by auto
next
  case (Some err)
  then have "activeThemeName s \<notin> set themeNames"
    by (rule invalid_name_unregistered)
  then show ?thesis
    unfolding themeEffect_invalid(2) [OF Some] by auto
qed

lemma setTheme_now:
  "raised (setTheme w None e v s) = None"
  "activeThemeName (outcomeState (setTheme w None e v s)) = v"
  "classList (outcomeState (setTheme w None e v s)) = classList s"
  by (simp_all add: setTheme_def Let_def setCssVar_def)

text \<open>
  Claim C7, as the code has it. When the active theme name \<open>v\<close> is a registered one (the
  type \<open>ThemeName\<close> admits no other), the effect of \<open>initTheme\<close> raises nothing and
  leaves \<open>v\<close> as the only registered theme class on the root element, whatever classes
  were there before. It first calls \<open>classList.remove\<close> with all the other registered
  names and then \<open>classList.add\<close> with \<open>v\<close>; after the removal no registered class
  other than \<open>v\<close> is left, so two theme classes are never present together. The same
  holds for the effect run after \<open>setTheme\<close> has set a registered name. For an active
  name that is not registered, the effect leaves no registered theme class on the root.
\<close>

theorem theme_effect_one_class:
  "activeThemeName s \<in> set themeNames \<Longrightarrow> v = activeThemeName s \<Longrightarrow>
     raised (themeEffect s) = None
   \<and> {c \<in> set (classList (outcomeState (themeEffect s))). c \<in> set themeNames} = {v}
   \<and> domCalls (outcomeState (themeEffect s)) = domCalls s @
        [ClassListRemove (filter (\<lambda>n. n \<noteq> v) themeNames), ClassListAdd v]
   \<and> raised (removeHtmlClass v s) = None
   \<and> {c \<in> set (classList (outcomeState (removeHtmlClass v s))). c \<in> set themeNames} \<subseteq> {v}
   \<and> {c \<in> set (classList (outcomeState (themeEffect (outcomeState (setTheme w None e v t))))).
         c \<in> set themeNames} = {v}
   \<and> (\<forall>u. activeThemeName u \<notin> set themeNames \<longrightarrow>
         {c \<in> set (classList (outcomeState (themeEffect u))). c \<in> set themeNames} = {})"
proof -
  assume reg: "activeThemeName s \<in> set themeNames" and v: "v = activeThemeName s"
  have ok: "tokensError [activeThemeName s] = None"
    using reg by (rule registered_name_valid)
  have a: "raised (themeEffect s) = None"
    by (rule themeEffect_valid(1) [OF ok])
  have b: "{c \<in> set (classList (outcomeState (themeEffect s))). c \<in> set themeNames} = {v}"
    using reg by (simp add: themeEffect_classes v)
  have c: "domCalls (outcomeState (themeEffect s)) = domCalls s @
        [ClassListRemove (filter (\<lambda>n. n \<noteq> v) themeNames), ClassListAdd v]"
    by (simp add: themeEffect_valid(3) [OF ok] v)
  have d: "raised (removeHtmlClass v s) = None"
    by (simp add: removeHtmlClass_done)
  have e: "{c \<in> set (classList (outcomeState (removeHtmlClass v s))). c \<in> set themeNames} \<subseteq> {v}"
    by (auto simp: removeHtmlClass_done)
  have f: "{c \<in> set (classList (outcomeState (themeEffect (outcomeState (setTheme w None e v t))))).
         c \<in> set themeNames} = {v}"
    using reg by (simp add: themeEffect_classes setTheme_now v)
  have g: "\<forall>u. activeThemeName u \<notin> set themeNames \<longrightarrow>
         {c \<in> set (classList (outcomeState (themeEffect u))). c \<in> set themeNames} = {}"
    by (simp add: themeEffect_classes)
  from a b c d e f g show ?thesis by blast
qed

text \<open>
  The claim as stated fails: after \<open>setTheme\<close> has made \<open>bogus-theme\<close> the active
  name, the effect removes \<open>normal\<close> from the root and adds \<open>bogus-theme\<close>; no
  registered theme class is left.
\<close>

theorem theme_effect_leaves_no_registered_class:
  "''bogus-theme'' \<notin> set themeNames
   \<and> classList themeStart = [''normal'']
   \<and> raised (themeEffect (outcomeState (setTheme viewport None click ''bogus-theme'' themeStart)))
       = None
   \<and> classList (outcomeState
       (themeEffect (outcomeState (setTheme viewport None click ''bogus-theme'' themeStart))))
       = [''bogus-theme'']"
proof -
  let ?s = "outcomeState (setTheme viewport None click ''bogus-theme'' themeStart)"
  have st: "activeThemeName ?s = ''bogus-theme''" "classList ?s = [''normal'']"
    by (simp_all add: setTheme_now themeStart_def)
  have un: "''bogus-theme'' \<notin> set themeNames"
    by (simp add: themeNames_eq)
  have others: "filter (\<lambda>n. n \<noteq> ''bogus-theme'') themeNames = themeNames"
    by (simp add: themeNames_eq)
  have ok: "tokensError [''bogus-theme''] = None"
    by (simp add: asciiWhitespace_def)
  have "themeEffect ?s = Done (setActiveThemeName ''bogus-theme''
      (?s\<lparr>domCalls := domCalls ?s @ [ClassListRemove themeNames, ClassListAdd ''bogus-theme''],
          classList := [''bogus-theme'']\<rparr>))"
    using ok by (simp add: themeEffect_def Let_def removeHtmlClass_done addHtmlClass_def st others
        themeNames_eq)
  then show ?thesis
    using un by (simp add: setActiveThemeName_def themeStart_def)
qed

theorem theme_effect_one_class_witness:
  "raised (themeEffect (themeStart\<lparr>activeThemeName := ''dark''\<rparr>)) = None
   \<and> {c \<in> set (classList (outcomeState (themeEffect (themeStart\<lparr>activeThemeName := ''dark''\<rparr>)))).
      c \<in> set themeNames} = {''dark''}
   \<and> domCalls (outcomeState (themeEffect (themeStart\<lparr>activeThemeName := ''dark''\<rparr>))) =
        [ClassListRemove [''normal'', ''dark-blue''], ClassListAdd ''dark'']"
proof -
  let ?s = "themeStart\<lparr>activeThemeName := ''dark''\<rparr>"
  have reg: "activeThemeName ?s \<in> set themeNames"
    by (simp add: themeNames_eq)
  have v: "''dark'' = activeThemeName ?s"
    by simp
  have others: "filter (\<lambda>n. n \<noteq> ''dark'') themeNames = [''normal'', ''dark-blue'']"
    by (simp add: themeNames_eq)
  have d0: "domCalls ?s = []"
    by (simp add: themeStart_def)
  note T = theme_effect_one_class [OF reg v]
  from T [THEN conjunct1] T [THEN conjunct2, THEN conjunct1]
    T [THEN conjunct2, THEN conjunct2, THEN conjunct1] others d0
  show ?thesis by simp
qed

subsection \<open>Theme names that are not registered\<close>

lemma setTheme_transition:
  "setTheme w (Some tr) e v s =
     tr (\<lambda>t. t\<lparr>activeThemeName := v\<rparr>) (outcomeState (setTheme w (Some deferringTransition) e v s))"
  by (simp add: setTheme_def Let_def deferringTransition_def)

lemma setTheme_direct:
  "setTheme w None e v s =
     Done ((outcomeState (setTheme w (Some deferringTransition) e v s))\<lparr>activeThemeName := v\<rparr>)"
  by (simp add: setTheme_def Let_def deferringTransition_def)

lemma setTheme_deferred:
  "raised (setTheme w (Some deferringTransition) e v s) = None"
  "activeThemeName (outcomeState (setTheme w (Some deferringTransition) e v s)) = activeThemeName s"
  by (simp_all add: setTheme_def Let_def deferringTransition_def setCssVar_def)

text \<open>
  Claim C6, as the code has it. \<open>setTheme\<close> does not validate its argument (the type
  \<open>ThemeName\<close> of the source admits registered names only). Without a view-transition
  primitive it never raises, and afterwards \<open>activeThemeName\<close> is the value given,
  registered or not; with the primitive it hands over a handler that sets
  \<open>activeThemeName\<close> to the value given, and ends as the primitive does. For a value
  other than \<open>dark\<close> and \<open>dark-blue\<close> the sidebar colours are those of the default
  theme. On load, \<open>activeThemeName\<close> is what \<open>getActiveThemeName()\<close> returns, as it
  is, and the default \<open>normal\<close> only when that is \<open>null\<close> or the empty string.
\<close>

theorem setTheme_takes_any_name:
  "raised (setTheme w None e v s) = None
   \<and> activeThemeName (outcomeState (setTheme w None e v s)) = v
   \<and> (\<forall>tr. setTheme w (Some tr) e v s =
         tr (\<lambda>t. t\<lparr>activeThemeName := v\<rparr>)
            (outcomeState (setTheme w (Some deferringTransition) e v s)))
   \<and> (v \<noteq> ''dark'' \<and> v \<noteq> ''dark-blue'' \<longrightarrow>
         cssVars (outcomeState (setTheme w None e v s)) ''--v3-sidebar-bg-color''
           = Some (Lit ''#ffffff'')
       \<and> cssVars (outcomeState (setTheme w None e v s)) ''--v3-sidebar-text-color''
           = Some (Lit ''#333333'')
       \<and> cssVars (outcomeState (setTheme w None e v s)) ''--v3-sidebar-hover-bg-color''
           = Some (Lit ''#f5f7fa'')
       \<and> cssVars (outcomeState (setTheme w None e v s)) ''--v3-sidebar-active-text-color''
           = Some (Lit ''#1890ff''))
   \<and> initialActiveThemeName None = ''normal''
   \<and> initialActiveThemeName (Some []) = ''normal''
   \<and> (\<forall>n. n \<noteq> [] \<longrightarrow> initialActiveThemeName (Some n) = n)"
proof -
  have now: "raised (setTheme w None e v s) = None"
    "activeThemeName (outcomeState (setTheme w None e v s)) = v"
    by (rule setTheme_now)+
  have handler: "\<forall>tr. setTheme w (Some tr) e v s =
         tr (\<lambda>t. t\<lparr>activeThemeName := v\<rparr>)
            (outcomeState (setTheme w (Some deferringTransition) e v s))"
    using setTheme_transition by blast
  have sidebar: "v \<noteq> ''dark'' \<and> v \<noteq> ''dark-blue'' \<longrightarrow>
         cssVars (outcomeState (setTheme w None e v s)) ''--v3-sidebar-bg-color''
           = Some (Lit ''#ffffff'')
       \<and> cssVars (outcomeState (setTheme w None e v s)) ''--v3-sidebar-text-color''
           = Some (Lit ''#333333'')
       \<and> cssVars (outcomeState (setTheme w None e v s)) ''--v3-sidebar-hover-bg-color''
           = Some (Lit ''#f5f7fa'')
       \<and> cssVars (outcomeState (setTheme w None e v s)) ''--v3-sidebar-active-text-color''
           = Some (Lit ''#1890ff'')"
    by (simp add: setTheme_def Let_def setCssVar_def)
  have load: "initialActiveThemeName None = ''normal''"
    "initialActiveThemeName (Some []) = ''normal''"
    "\<forall>n. n \<noteq> [] \<longrightarrow> initialActiveThemeName (Some n) = n"
    by (simp_all add: initialActiveThemeName_def DEFAULT_THEME_NAME_def)
  from now handler sidebar load show ?thesis by blast
qed

text \<open>
  The claim as stated fails: applied with a name that is not registered, \<open>setTheme\<close>
  makes that name the active theme name, not the default.
\<close>

theorem setTheme_keeps_unregistered_name:
  "''bogus-theme'' \<notin> set themeNames
   \<and> raised (setTheme viewport None click ''bogus-theme'' themeStart) = None
   \<and> activeThemeName (outcomeState (setTheme viewport None click ''bogus-theme'' themeStart))
       = ''bogus-theme''
   \<and> activeThemeName (outcomeState (setTheme viewport None click ''bogus-theme'' themeStart))
       \<noteq> DEFAULT_THEME_NAME"
  by (simp add: setTheme_now themeNames_eq DEFAULT_THEME_NAME_def)

theorem setTheme_takes_any_name_witness:
  "raised (setTheme viewport None click ''dark'' themeStart) = None
   \<and> activeThemeName (outcomeState (setTheme viewport None click ''dark'' themeStart)) = ''dark''
   \<and> cssVars (outcomeState (setTheme viewport None click ''normal'' themeStart))
        ''--v3-sidebar-bg-color'' = Some (Lit ''#ffffff'')
   \<and> initialActiveThemeName (Some ''dark-blue'') = ''dark-blue''"
proof -
  note D = setTheme_takes_any_name [of viewport click "''dark''" themeStart]
  note N = setTheme_takes_any_name [of viewport click "''normal''" themeStart]
  have a: "raised (setTheme viewport None click ''dark'' themeStart) = None"
    using D [THEN conjunct1] .
  have b: "activeThemeName (outcomeState (setTheme viewport None click ''dark'' themeStart)) = ''dark''"
    using D [THEN conjunct2, THEN conjunct1] .
  have c: "cssVars (outcomeState (setTheme viewport None click ''normal'' themeStart))
        ''--v3-sidebar-bg-color'' = Some (Lit ''#ffffff'')"
    using N [THEN conjunct2, THEN conjunct2, THEN conjunct2, THEN conjunct1] by simp
  have d: "initialActiveThemeName (Some ''dark-blue'') = ''dark-blue''"
    using D [THEN conjunct2, THEN conjunct2, THEN conjunct2, THEN conjunct2,
      THEN conjunct2, THEN conjunct2] by simp
  from a b c d show ?thesis by simp
qed

subsection \<open>The state swap and the view-transition primitive\<close>

text \<open>
  Claim C9, as the code has it. Where the browser has the view-transition primitive,
  \<open>setTheme\<close> hands the state swap to it as a callback and does not perform the swap
  itself; where it has none, \<open>setTheme\<close> performs the swap at once. So
  \<open>activeThemeName\<close> is the new name as soon as \<open>setTheme\<close> returns when there is no
  primitive, and when the primitive has run the callback by the time it returns; with a
  primitive that returns before it runs the callback, \<open>activeThemeName\<close> is still the
  old name when \<open>setTheme\<close> returns.
\<close>

theorem setTheme_swap_and_transition:
  "(\<forall>tr. setTheme w (Some tr) e v s =
       tr (\<lambda>t. t\<lparr>activeThemeName := v\<rparr>)
          (outcomeState (setTheme w (Some deferringTransition) e v s)))
   \<and> setTheme w None e v s =
       Done ((outcomeState (setTheme w (Some deferringTransition) e v s))\<lparr>activeThemeName := v\<rparr>)
   \<and> activeThemeName (outcomeState (setTheme w None e v s)) = v
   \<and> (\<forall>tr. (\<forall>h t. activeThemeName (outcomeState (tr h t)) = activeThemeName (h t)) \<longrightarrow>
         activeThemeName (outcomeState (setTheme w (Some tr) e v s)) = v)
   \<and> activeThemeName (outcomeState (setTheme w (Some callingTransition) e v s)) = v
   \<and> activeThemeName (outcomeState (setTheme w (Some deferringTransition) e v s))
       = activeThemeName s"
proof -
  have wrap: "\<forall>tr. setTheme w (Some tr) e v s =
       tr (\<lambda>t. t\<lparr>activeThemeName := v\<rparr>)
          (outcomeState (setTheme w (Some deferringTransition) e v s))"
    using setTheme_transition by blast
  have direct: "setTheme w None e v s =
       Done ((outcomeState (setTheme w (Some deferringTransition) e v s))\<lparr>activeThemeName := v\<rparr>)"
    by (rule setTheme_direct)
  have now: "activeThemeName (outcomeState (setTheme w None e v s)) = v"
    by (rule setTheme_now)
  have run: "activeThemeName (outcomeState (setTheme w (Some tr) e v s)) = v"
    if "\<forall>h t. activeThemeName (outcomeState (tr h t)) = activeThemeName (h t)" for tr
    by (subst setTheme_transition) (simp add: that)
  have calling: "activeThemeName (outcomeState (setTheme w (Some callingTransition) e v s)) = v"
    by (rule run) (simp add: callingTransition_def)
  have deferring: "activeThemeName (outcomeState (setTheme w (Some deferringTransition) e v s))
       = activeThemeName s"
    by (rule setTheme_deferred)
  from wrap direct now run calling deferring show ?thesis by blast
qed

text \<open>
  The claim as stated fails: with a primitive that returns before it runs the callback,
  the active theme name is still \<open>normal\<close> when \<open>setTheme\<close> has been called with
  \<open>dark\<close>.
\<close>

theorem setTheme_state_waits_for_transition:
  "activeThemeName themeStart = ''normal''
   \<and> raised (setTheme viewport (Some deferringTransition) click ''dark'' themeStart) = None
   \<and> activeThemeName
       (outcomeState (setTheme viewport (Some deferringTransition) click ''dark'' themeStart))
       = ''normal''"
  by (simp add: setTheme_deferred themeStart_def)

theorem setTheme_swap_and_transition_witness:
  "activeThemeName (outcomeState (setTheme viewport None click ''dark'' themeStart)) = ''dark''
   \<and> activeThemeName
       (outcomeState (setTheme viewport (Some callingTransition) click ''dark'' themeStart))
       = ''dark''
   \<and> activeThemeName
       (outcomeState (setTheme viewport (Some deferringTransition) click ''dark'' themeStart))
       = ''normal''"
proof -
  have h: "\<forall>h t. activeThemeName (outcomeState (callingTransition h t)) = activeThemeName (h t)"
    by (simp add: callingTransition_def)
  have s0: "activeThemeName themeStart = ''normal''"
    by (simp add: themeStart_def)
  note T = setTheme_swap_and_transition [of viewport click "''dark''" themeStart]
  have a: "activeThemeName (outcomeState (setTheme viewport None click ''dark'' themeStart)) = ''dark''"
    using T [THEN conjunct2, THEN conjunct2, THEN conjunct1] .
  have b: "activeThemeName
       (outcomeState (setTheme viewport (Some callingTransition) click ''dark'' themeStart)) = ''dark''"
    using T [THEN conjunct2, THEN conjunct2, THEN conjunct2, THEN conjunct1] h by blast
  have c: "activeThemeName
       (outcomeState (setTheme viewport (Some deferringTransition) click ''dark'' themeStart))
       = ''normal''"
    using T [THEN conjunct2, THEN conjunct2, THEN conjunct2, THEN conjunct2, THEN conjunct2] s0
    by simp
  from a b c show ?thesis by simp
qed

end
